theory Spec2Isabelle
  imports Main "HOL-Library.Word"
begin

unbundle bit_operations_syntax

section \<open>Values shared by the GUI module (modules/gui.cpp)\<close>

text \<open>
  Pointers to objects owned by other modules are modelled by the identity of the object:
  a \<open>Tool*\<close> or a \<open>Command*\<close> is a number, and the null pointer is \<open>None\<close>.
\<close>

type_synonym Tool = nat
type_synonym Command = nat
type_synonym Sprite = nat
type_synonym JWidget = nat
type_synonym JAccel = nat
type_synonym MonitorPtr = nat

text \<open>
  Modelled from the spec: the class \<open>Params\<close> is declared in commands/params.h, outside
  this module. The spec says that parameters compare by structural equality and that
  absent parameters are an empty parameter set, so a parameter set is the list of its
  (name, value) entries, \<open>empty()\<close> is \<open>[]\<close> and \<open>operator==\<close> is equality.
\<close>

type_synonym Params = "(string \<times> string) list"

text \<open>
  Modelled from the spec: the accelerator type \<open>JAccel\<close> and \<open>jaccel_check\<close> belong to
  the widget toolkit. The spec describes an accelerator as an ordered set of
  (modifier-mask, key-code) alternatives that matches an event when some alternative has the
  event's modifiers and the event's key code or, where applicable, its character code.
\<close>

datatype keycode = Scancode int | Ascii int

type_synonym KeyCombo = "int \<times> keycode"

record key_message =
  shifts :: int
  ascii :: int
  scancode :: int

definition keycombo_matches :: "KeyCombo \<Rightarrow> int \<Rightarrow> int \<Rightarrow> int \<Rightarrow> bool" where
  "keycombo_matches k sh asc scan =
     (fst k = sh \<and> (case snd k of Scancode c \<Rightarrow> c = scan | Ascii c \<Rightarrow> c = asc))"

definition jaccel_check :: "KeyCombo list \<Rightarrow> int \<Rightarrow> int \<Rightarrow> int \<Rightarrow> bool" where
  "jaccel_check keys sh asc scan = list_ex (\<lambda>k. keycombo_matches k sh asc scan) keys"

datatype ShortcutType = Shortcut_ExecuteCommand | Shortcut_ChangeTool

text \<open>
  \<open>struct Shortcut\<close>. The anonymous union of \<open>command\<close> and \<open>tool\<close> is two fields; the
  code reads only the member that \<open>type\<close> selects.
\<close>

record Shortcut =
  accel :: "JAccel option"
  type :: ShortcutType
  command :: "Command option"
  tool :: "Tool option"
  params :: "Params option"

text \<open>\<open>struct Monitor\<close>: \<open>proc\<close> and \<open>free\<close> are function pointers, \<open>data\<close> is opaque.\<close>

record Monitor =
  proc :: nat
  free :: "nat option"
  data :: nat
  lock :: bool
  deleted :: bool

text \<open>Calls that leave the module, in the order in which they are made.\<close>

datatype event =
    Select_tool "Tool option"
  | Execute_command Command "Params option"
  | Proc_enter MonitorPtr
  | Proc_return MonitorPtr
  | Free_call MonitorPtr nat nat
  | App_realloc_recent_list
  | Update_screen_for_sprite "Sprite option"
  | Set_current_palette "Sprite option"
  | Jmanager_refresh_screen
  | Update_editors_with_sprite Sprite
  | Statusbar_set_text
  | Rec_screen_poll
  | Jmouse_draw_cursor
  | Ji_flip_dirty_region
  | Blit
  | Stretch_blit
  | Check_for_dropped_files

text \<open>
  The statics of the module after \<open>init_module_gui\<close>, with the two stores they point into
  (accelerators and monitors, addressed by allocation order), the manager's timers, the
  tool selected by \<open>select_tool\<close> and the trace of outgoing calls.
\<close>

record gui =
  shortcuts :: "Shortcut list"
  jaccels :: "KeyCombo list list"
  monitors :: "MonitorPtr list"
  monitor_store :: "Monitor option list"
  monitor_timer :: int
  timers :: "bool list"
  next_idle_flags :: "32 word"
  double_buffering :: bool
  current_tool :: "Tool option"
  trace :: "event list"

text \<open>
  What the module reads from its collaborators. Each field stands for a function or a
  variable that the module uses and another module defines: the command registry
  (\<open>CommandsModule::get_command_by_name\<close>, null when the name is unknown),
  \<open>Command::short_name\<close>, the constant \<open>CommandId::screen_shot\<close>, the chord grammar of
  \<open>jaccel_add_keys_from_string\<close>, the array \<open>tools_list\<close> (its length is \<open>MAX_TOOLS\<close>),
  the children of the manager widget, the two window tests and \<open>app_get_top_window\<close>.
\<close>

record env =
  get_command_by_name :: "string \<Rightarrow> Command option"
  short_name :: "Command \<Rightarrow> string"
  screen_shot :: string
  jaccel_parse :: "string \<Rightarrow> KeyCombo list"
  tools_list :: "Tool list"
  children :: "JWidget list"
  jwindow_is_foreground :: "JWidget \<Rightarrow> bool"
  jwindow_is_desktop :: "JWidget \<Rightarrow> bool"
  app_get_top_window :: "JWidget option"

text \<open>
  Faults of the C++ program that end its defined behaviour: a call through a null pointer,
  a failed \<open>assert\<close>, an access to a deleted object, the use of a list iterator whose
  element was erased, and a write beyond the end of a character array.
\<close>

datatype error =
  Null_dereference | Assertion_failed | Use_after_free | Dangling_iterator | Buffer_overflow

text \<open>
  A C string is the list of its bytes, without the terminating zero. \<open>usprintf\<close> and
  \<open>ustrcpy\<close> write the text and then the terminating zero into the destination and check
  no bound. The destination of every call in the module is a local array \<open>char buf[n]\<close>,
  and its length \<open>n\<close> is the first argument here: the call returns the content of the
  array when the text and the zero fit, and is a fault when they do not. The format of
  \<open>usprintf\<close> is applied by the caller, which passes the formatted text.
\<close>

definition usprintf :: "nat \<Rightarrow> string \<Rightarrow> error + string" where
  "usprintf n text = (if length text + 1 \<le> n then Inr text else Inl Buffer_overflow)"

definition ustrcpy :: "nat \<Rightarrow> string \<Rightarrow> error + string" where
  "ustrcpy n src = (if length src + 1 \<le> n then Inr src else Inl Buffer_overflow)"

section \<open>Keyboard shortcuts\<close>

text \<open>
  The search loops of the module have one shape: walk the vector from \<open>begin()\<close> and
  return the first element that passes the test, or \<open>NULL\<close>. The element is returned by
  its position, which identifies the \<open>Shortcut*\<close>.
\<close>

fun first_index :: "('a \<Rightarrow> bool) \<Rightarrow> 'a list \<Rightarrow> nat option" where
  "first_index P [] = None"
| "first_index P (x # xs) = (if P x then Some 0 else map_option Suc (first_index P xs))"

text \<open>
  Modelled from the spec: \<open>jaccel_new\<close> and \<open>jaccel_add_keys_from_string\<close> of the toolkit.
  A new accelerator has no alternatives; adding keys appends the chords that the external
  chord grammar (\<open>jaccel_parse\<close>) reads from the string. A handle that was never
  allocated has no alternatives and adding to it changes nothing.
\<close>

definition jaccel_new :: "gui \<Rightarrow> JAccel \<times> gui" where
  "jaccel_new s = (length (jaccels s), s\<lparr>jaccels := jaccels s @ [[]]\<rparr>)"

definition jaccel_keys :: "gui \<Rightarrow> JAccel \<Rightarrow> KeyCombo list" where
  "jaccel_keys s a = (if a < length (jaccels s) then jaccels s ! a else [])"

definition jaccel_add_keys_from_string :: "env \<Rightarrow> JAccel option \<Rightarrow> string \<Rightarrow> gui \<Rightarrow> gui" where
  "jaccel_add_keys_from_string E a str s =
     (case a of
        None \<Rightarrow> s
      | Some h \<Rightarrow>
          if h < length (jaccels s)
          then s\<lparr>jaccels := (jaccels s)[h := jaccels s ! h @ jaccel_parse E str]\<rparr>
          else s)"

text \<open>\<open>Shortcut::Shortcut(ShortcutType type)\<close>\<close>

definition Shortcut_new :: "ShortcutType \<Rightarrow> gui \<Rightarrow> Shortcut \<times> gui" where
  "Shortcut_new t s =
     (let (a, s') = jaccel_new s
      in (\<lparr>accel = Some a, type = t, command = None, tool = None, params = None\<rparr>, s'))"

text \<open>
  \<open>Shortcut::add_shortcut\<close>: the string is wrapped in angle brackets for the parser, by
  \<open>usprintf\<close> with the format \<open><%s>\<close> into \<open>char buf[256]\<close>.
\<close>

definition add_shortcut :: "env \<Rightarrow> Shortcut \<Rightarrow> string \<Rightarrow> gui \<Rightarrow> error + gui" where
  "add_shortcut E sh shortcut_string s =
     (case usprintf 256 (''<'' @ shortcut_string @ ''>'') of
        Inl e \<Rightarrow> Inl e
      | Inr buf \<Rightarrow> Inr (jaccel_add_keys_from_string E (accel sh) buf s))"

text \<open>\<open>Shortcut::is_key_pressed\<close>\<close>

definition is_key_pressed :: "gui \<Rightarrow> Shortcut \<Rightarrow> key_message \<Rightarrow> bool" where
  "is_key_pressed s sh msg =
     (case accel sh of
        Some a \<Rightarrow> jaccel_check (jaccel_keys s a) (shifts msg) (ascii msg) (scancode msg)
      | None \<Rightarrow> False)"

text \<open>
  \<open>get_keyboard_shortcut_for_command\<close>: the test of the loop body, then the function. A
  null \<open>params\<close> argument matches a stored empty set; a non-null one matches a stored set
  that is equal to it.
\<close>

definition command_shortcut_test :: "Command \<Rightarrow> Params option \<Rightarrow> Shortcut \<Rightarrow> bool" where
  "command_shortcut_test c ps sh =
     (type sh = Shortcut_ExecuteCommand \<and>
      command sh = Some c \<and>
      ((ps = None \<and> params sh = Some []) \<or> (ps \<noteq> None \<and> params sh = ps)))"

definition get_keyboard_shortcut_for_command ::
  "env \<Rightarrow> string \<Rightarrow> Params option \<Rightarrow> gui \<Rightarrow> nat option" where
  "get_keyboard_shortcut_for_command E command_name ps s =
     (case get_command_by_name E command_name of
        None \<Rightarrow> None
      | Some c \<Rightarrow> first_index (command_shortcut_test c ps) (shortcuts s))"

text \<open>\<open>get_keyboard_shortcut_for_tool\<close>\<close>

definition tool_shortcut_test :: "Tool option \<Rightarrow> Shortcut \<Rightarrow> bool" where
  "tool_shortcut_test t sh = (type sh = Shortcut_ChangeTool \<and> tool sh = t)"

definition get_keyboard_shortcut_for_tool :: "Tool option \<Rightarrow> gui \<Rightarrow> nat option" where
  "get_keyboard_shortcut_for_tool t s = first_index (tool_shortcut_test t) (shortcuts s)"

text \<open>
  \<open>add_keyboard_shortcut_to_execute_command\<close>: look the binding up; when there is none,
  construct one, fill in the command found in the registry (null when the name is not
  registered) and a clone of the parameters (a fresh empty set for null), and push it.
  Then add the chord to the binding's accelerator and return the accelerator.
\<close>

definition add_keyboard_shortcut_to_execute_command ::
  "env \<Rightarrow> string \<Rightarrow> string \<Rightarrow> Params option \<Rightarrow> gui \<Rightarrow> error + JAccel option \<times> gui" where
  "add_keyboard_shortcut_to_execute_command E shortcut_string command_name ps s =
     (case get_keyboard_shortcut_for_command E command_name ps s of
        Some i \<Rightarrow>
          (let sh = shortcuts s ! i
           in case add_shortcut E sh shortcut_string s of
                Inl e \<Rightarrow> Inl e
              | Inr s' \<Rightarrow> Inr (accel sh, s'))
      | None \<Rightarrow>
          (let (sh0, s1) = Shortcut_new Shortcut_ExecuteCommand s;
               sh = sh0\<lparr>command := get_command_by_name E command_name,
                        params := Some (case ps of Some p \<Rightarrow> p | None \<Rightarrow> [])\<rparr>;
               s2 = s1\<lparr>shortcuts := shortcuts s1 @ [sh]\<rparr>
           in case add_shortcut E sh shortcut_string s2 of
                Inl e \<Rightarrow> Inl e
              | Inr s' \<Rightarrow> Inr (accel sh, s')))"

text \<open>\<open>add_keyboard_shortcut_to_change_tool\<close>\<close>

definition add_keyboard_shortcut_to_change_tool ::
  "env \<Rightarrow> string \<Rightarrow> Tool option \<Rightarrow> gui \<Rightarrow> error + JAccel option \<times> gui" where
  "add_keyboard_shortcut_to_change_tool E shortcut_string t s =
     (case get_keyboard_shortcut_for_tool t s of
        Some i \<Rightarrow>
          (let sh = shortcuts s ! i
           in case add_shortcut E sh shortcut_string s of
                Inl e \<Rightarrow> Inl e
              | Inr s' \<Rightarrow> Inr (accel sh, s'))
      | None \<Rightarrow>
          (let (sh0, s1) = Shortcut_new Shortcut_ChangeTool s;
               sh = sh0\<lparr>tool := t\<rparr>;
               s2 = s1\<lparr>shortcuts := shortcuts s1 @ [sh]\<rparr>
           in case add_shortcut E sh shortcut_string s2 of
                Inl e \<Rightarrow> Inl e
              | Inr s' \<Rightarrow> Inr (accel sh, s')))"

text \<open>\<open>get_accel_to_execute_command\<close> and \<open>get_accel_to_change_tool\<close>\<close>

definition get_accel_to_execute_command ::
  "env \<Rightarrow> string \<Rightarrow> Params option \<Rightarrow> gui \<Rightarrow> JAccel option" where
  "get_accel_to_execute_command E command_name ps s =
     (case get_keyboard_shortcut_for_command E command_name ps s of
        Some i \<Rightarrow> accel (shortcuts s ! i)
      | None \<Rightarrow> None)"

definition get_accel_to_change_tool :: "Tool option \<Rightarrow> gui \<Rightarrow> JAccel option" where
  "get_accel_to_change_tool t s =
     (case get_keyboard_shortcut_for_tool t s of
        Some i \<Rightarrow> accel (shortcuts s ! i)
      | None \<Rightarrow> None)"

text \<open>\<open>get_command_from_key_message\<close>\<close>

definition get_command_from_key_message :: "gui \<Rightarrow> key_message \<Rightarrow> Command option" where
  "get_command_from_key_message s msg =
     (case first_index (\<lambda>sh. type sh = Shortcut_ExecuteCommand \<and> is_key_pressed s sh msg)
             (shortcuts s) of
        Some i \<Rightarrow> command (shortcuts s ! i)
      | None \<Rightarrow> None)"

section \<open>Key-press dispatch (\<open>manager_msg_proc\<close>, case \<open>JM_KEYPRESSED\<close>)\<close>

text \<open>
  Modelled from the spec: \<open>select_tool\<close> (modules/tools) makes the tool the active one,
  and \<open>UIContext::execute_command\<close> runs the command with the bound parameters. Both
  are recorded in the trace.
\<close>

definition call :: "event \<Rightarrow> gui \<Rightarrow> gui" where
  "call e s = s\<lparr>trace := trace s @ [e]\<rparr>"

definition select_tool :: "Tool option \<Rightarrow> gui \<Rightarrow> gui" where
  "select_tool t s = call (Select_tool t) (s\<lparr>current_tool := t\<rparr>)"

definition execute_command :: "Command \<Rightarrow> Params option \<Rightarrow> gui \<Rightarrow> gui" where
  "execute_command c ps s = call (Execute_command c ps) s"

text \<open>
  The first loop of the \<open>Shortcut_ChangeTool\<close> case:
  \<^verbatim>\<open>for (i=j=0; i<MAX_TOOLS; i++)
    if (get_keyboard_shortcut_for_tool(tools_list[i])->is_key_pressed(msg))
      group[j++] = tools_list[i];\<close>
  The result of the lookup is used without a test, so a tool without a binding is a call
  through a null pointer.
\<close>

fun collect_group :: "gui \<Rightarrow> key_message \<Rightarrow> Tool list \<Rightarrow> error + Tool list" where
  "collect_group s msg [] = Inr []"
| "collect_group s msg (t # ts) =
     (case get_keyboard_shortcut_for_tool (Some t) s of
        None \<Rightarrow> Inl Null_dereference
      | Some i \<Rightarrow>
          (case collect_group s msg ts of
             Inl e \<Rightarrow> Inl e
           | Inr g \<Rightarrow> Inr (if is_key_pressed s (shortcuts s ! i) msg then t # g else g)))"

text \<open>
  The second loop, run when the group has two or more members:
  \<^verbatim>\<open>for (i=0; i<j; i++)
    if (group[i] == current_tool && i+1 < j) { select_this_tool = group[i+1]; break; }\<close>
  \<open>None\<close> means that the loop ended without an assignment.
\<close>

function cycle_loop :: "Tool list \<Rightarrow> Tool option \<Rightarrow> nat \<Rightarrow> Tool option" where
  "cycle_loop grp cur i =
     (if i < length grp
      then (if Some (grp ! i) = cur \<and> i + 1 < length grp
            then Some (grp ! (i + 1))
            else cycle_loop grp cur (i + 1))
      else None)"
  by pat_completeness auto
termination
  by (relation "measure (\<lambda>(grp, cur, i). length grp - i)") auto

declare cycle_loop.simps [simp del]

definition change_tool :: "env \<Rightarrow> key_message \<Rightarrow> Shortcut \<Rightarrow> gui \<Rightarrow> error + gui" where
  "change_tool E msg shortcut s =
     (case collect_group s msg (tools_list E) of
        Inl e \<Rightarrow> Inl e
      | Inr grp \<Rightarrow>
          (let select_this_tool =
                 (if 2 \<le> length grp
                  then (case cycle_loop grp (current_tool s) 0 of
                          Some t \<Rightarrow> Some t
                        | None \<Rightarrow> tool shortcut)
                  else tool shortcut)
           in Inr (select_tool select_this_tool s)))"

text \<open>
  The \<open>Shortcut_ExecuteCommand\<close> case. The walk over the manager's children stops at the
  first foreground window (nothing is executed) or at the first child that is a desktop
  window and the application's top window (the command is executed).
\<close>

fun main_window_reached :: "env \<Rightarrow> JWidget list \<Rightarrow> bool" where
  "main_window_reached E [] = False"
| "main_window_reached E (child # rest) =
     (if jwindow_is_foreground E child then False
      else if jwindow_is_desktop E child \<and> Some child = app_get_top_window E then True
      else main_window_reached E rest)"

definition execute_shortcut :: "env \<Rightarrow> Shortcut \<Rightarrow> gui \<Rightarrow> error + bool \<times> gui" where
  "execute_shortcut E shortcut s =
     (case command shortcut of
        None \<Rightarrow> Inl Null_dereference
      | Some c \<Rightarrow>
          if short_name E c = screen_shot E
          then Inr (True, execute_command c (params shortcut) s)
          else if main_window_reached E (children E)
          then Inr (True, execute_command c (params shortcut) s)
          else Inr (False, s))"

text \<open>
  The whole case: the first shortcut whose accelerator matches the message decides. After
  a tool change the handler leaves the loop and returns \<open>false\<close>.
\<close>

definition key_pressed :: "env \<Rightarrow> key_message \<Rightarrow> gui \<Rightarrow> error + bool \<times> gui" where
  "key_pressed E msg s =
     (case first_index (\<lambda>sh. is_key_pressed s sh msg) (shortcuts s) of
        None \<Rightarrow> Inr (False, s)
      | Some i \<Rightarrow>
          (let shortcut = shortcuts s ! i
           in case type shortcut of
                Shortcut_ChangeTool \<Rightarrow>
                  (case change_tool E msg shortcut s of
                     Inl e \<Rightarrow> Inl e
                   | Inr s' \<Rightarrow> Inr (False, s'))
              | Shortcut_ExecuteCommand \<Rightarrow> execute_shortcut E shortcut s))"

section \<open>Monitors\<close>

text \<open>
  Modelled from the spec: the manager's timers (\<open>jmanager_add_timer\<close>,
  \<open>jmanager_start_timer\<close>, \<open>jmanager_stop_timer\<close>) are the toolkit's timer registration
  and cancellation primitives. A timer is its running flag; its id is its position, a new
  timer is stopped, and an id that was never handed out names no timer.
\<close>

definition jmanager_add_timer :: "gui \<Rightarrow> int \<times> gui" where
  "jmanager_add_timer s = (int (length (timers s)), s\<lparr>timers := timers s @ [False]\<rparr>)"

definition jmanager_set_timer :: "int \<Rightarrow> bool \<Rightarrow> gui \<Rightarrow> gui" where
  "jmanager_set_timer timer_id running s =
     (if 0 \<le> timer_id \<and> nat timer_id < length (timers s)
      then s\<lparr>timers := (timers s)[nat timer_id := running]\<rparr>
      else s)"

definition jmanager_start_timer :: "int \<Rightarrow> gui \<Rightarrow> gui" where
  "jmanager_start_timer timer_id s = jmanager_set_timer timer_id True s"

definition jmanager_stop_timer :: "int \<Rightarrow> gui \<Rightarrow> gui" where
  "jmanager_stop_timer timer_id s = jmanager_set_timer timer_id False s"

text \<open>\<open>Monitor::Monitor\<close>\<close>

definition Monitor_new :: "nat \<Rightarrow> nat option \<Rightarrow> nat \<Rightarrow> Monitor" where
  "Monitor_new p f d = \<lparr>proc = p, free = f, data = d, lock = False, deleted = False\<rparr>"

text \<open>The object a \<open>Monitor*\<close> points to; \<open>None\<close> once it was deleted.\<close>

definition monitor_at :: "gui \<Rightarrow> MonitorPtr \<Rightarrow> Monitor option" where
  "monitor_at s m = (if m < length (monitor_store s) then monitor_store s ! m else None)"

definition monitor_update :: "MonitorPtr \<Rightarrow> Monitor option \<Rightarrow> gui \<Rightarrow> gui" where
  "monitor_update m v s = s\<lparr>monitor_store := (monitor_store s)[m := v]\<rparr>"

text \<open>
  \<open>delete monitor\<close>: the destructor \<open>Monitor::~Monitor\<close> calls the teardown function when
  there is one, then the object is gone. The teardown function is taken not to call back
  into this module.
\<close>

definition delete_monitor :: "MonitorPtr \<Rightarrow> Monitor \<Rightarrow> gui \<Rightarrow> gui" where
  "delete_monitor m mon s =
     monitor_update m None
       (case free mon of
          Some f \<Rightarrow> call (Free_call m f (data mon)) s
        | None \<Rightarrow> s)"

text \<open>\<open>add_gui_monitor\<close>\<close>

definition add_gui_monitor :: "nat \<Rightarrow> nat option \<Rightarrow> nat \<Rightarrow> gui \<Rightarrow> MonitorPtr \<times> gui" where
  "add_gui_monitor p f d s =
     (let monitor = length (monitor_store s);
          s1 = s\<lparr>monitor_store := monitor_store s @ [Some (Monitor_new p f d)]\<rparr>;
          s2 = s1\<lparr>monitors := monitors s1 @ [monitor]\<rparr>;
          s3 = (if monitor_timer s2 < 0
                then (let (timer_id, s') = jmanager_add_timer s2
                      in s'\<lparr>monitor_timer := timer_id\<rparr>)
                else s2)
      in (monitor, jmanager_start_timer (monitor_timer s3) s3))"

text \<open>
  \<open>remove_gui_monitor\<close>: \<open>std::find\<close>, the assertion, deletion now or the \<open>deleted\<close> mark
  for a locked monitor, \<open>erase\<close> of the element found, and the timer stopped when the list
  became empty.
\<close>

definition remove_gui_monitor :: "MonitorPtr \<Rightarrow> gui \<Rightarrow> error + gui" where
  "remove_gui_monitor monitor s =
     (if monitor \<notin> set (monitors s) then Inl Assertion_failed
      else case monitor_at s monitor of
             None \<Rightarrow> Inl Use_after_free
           | Some mon \<Rightarrow>
               (let s1 = (if \<not> lock mon then delete_monitor monitor mon s
                          else monitor_update monitor (Some (mon\<lparr>deleted := True\<rparr>)) s);
                    s2 = s1\<lparr>monitors := remove1 monitor (monitors s1)\<rparr>
                in Inr (if monitors s2 = [] then jmanager_stop_timer (monitor_timer s2) s2
                        else s2)))"

text \<open>\<open>get_monitor_data\<close>\<close>

definition get_monitor_data :: "gui \<Rightarrow> MonitorPtr \<Rightarrow> error + nat" where
  "get_monitor_data s monitor =
     (case monitor_at s monitor of None \<Rightarrow> Inl Use_after_free | Some mon \<Rightarrow> Inr (data mon))"

text \<open>
  What a poll function does to this module is the sequence of calls it makes: it may
  register monitors, remove monitors (itself included), and run a nested message loop in
  which the manager receives the monitor timer's \<open>JM_TIMER\<close> message. The sequence is a
  function of the function pointer, the user data and the state at entry.
\<close>

datatype monitor_call =
    Call_add_gui_monitor nat "nat option" nat
  | Call_remove_gui_monitor MonitorPtr
  | Call_timer_message

type_synonym procs = "nat \<Rightarrow> nat \<Rightarrow> gui \<Rightarrow> monitor_call list"

text \<open>
  Iterators of the monitor list. \<open>begin()\<close> is the first element or \<open>end()\<close> (\<open>None\<close>);
  \<open>++next\<close> is the element after the current one. An iterator stays valid until its
  element is erased.
\<close>

definition list_begin :: "'a list \<Rightarrow> 'a option" where
  "list_begin xs = (case xs of [] \<Rightarrow> None | x # _ \<Rightarrow> Some x)"

fun list_next :: "'a \<Rightarrow> 'a list \<Rightarrow> 'a option" where
  "list_next m [] = None"
| "list_next m [x] = None"
| "list_next m (x # y # ys) = (if x = m then Some y else list_next m (y # ys))"

text \<open>
  The \<open>JM_TIMER\<close> case of \<open>manager_msg_proc\<close>. \<open>monitor_loop\<close> is the \<open>for\<close> loop from
  the iterator \<open>it\<close> on; \<open>run_calls\<close> runs what a poll function does. The first argument
  bounds the number of loop iterations and nested loops: poll functions may register
  monitors without end, so the loop need not finish, and \<open>None\<close> is the answer when the
  bound is used up.
\<close>

fun monitor_loop :: "nat \<Rightarrow> procs \<Rightarrow> MonitorPtr option \<Rightarrow> gui \<Rightarrow> (error + gui) option"
  and run_calls :: "nat \<Rightarrow> procs \<Rightarrow> monitor_call list \<Rightarrow> gui \<Rightarrow> (error + gui) option"
where
  "monitor_loop n P None s = Some (Inr s)"
| "monitor_loop 0 P (Some monitor) s = None"
| "monitor_loop (Suc n) P (Some monitor) s =
     (if monitor \<notin> set (monitors s) then Some (Inl Dangling_iterator)
      else
        let next = list_next monitor (monitors s)
        in case monitor_at s monitor of
             None \<Rightarrow> Some (Inl Use_after_free)
           | Some mon \<Rightarrow>
               if lock mon then monitor_loop n P next s
               else
                 let s1 = call (Proc_enter monitor)
                            (monitor_update monitor (Some (mon\<lparr>lock := True\<rparr>)) s)
                 in case run_calls n P (P (proc mon) (data mon) s1) s1 of
                      None \<Rightarrow> None
                    | Some (Inl e) \<Rightarrow> Some (Inl e)
                    | Some (Inr s2) \<Rightarrow>
                        (case monitor_at s2 monitor of
                           None \<Rightarrow> Some (Inl Use_after_free)
                         | Some mon2 \<Rightarrow>
                             let s3 = call (Proc_return monitor)
                                        (monitor_update monitor (Some (mon2\<lparr>lock := False\<rparr>)) s2)
                             in monitor_loop n P next
                                  (if deleted mon2
                                   then delete_monitor monitor (mon2\<lparr>lock := False\<rparr>) s3
                                   else s3)))"
| "run_calls n P [] s = Some (Inr s)"
| "run_calls n P (Call_add_gui_monitor p f d # cs) s =
     run_calls n P cs (snd (add_gui_monitor p f d s))"
| "run_calls n P (Call_remove_gui_monitor m # cs) s =
     (case remove_gui_monitor m s of
        Inl e \<Rightarrow> Some (Inl e)
      | Inr s' \<Rightarrow> run_calls n P cs s')"
| "run_calls 0 P (Call_timer_message # cs) s = None"
| "run_calls (Suc n) P (Call_timer_message # cs) s =
     (case monitor_loop n P (list_begin (monitors s)) s of
        None \<Rightarrow> None
      | Some (Inl e) \<Rightarrow> Some (Inl e)
      | Some (Inr s') \<Rightarrow>
          run_calls (Suc n) P cs
            (if monitors s' = [] then jmanager_stop_timer (monitor_timer s') s' else s'))"

text \<open>The case itself, for a message of the timer \<open>timer_id\<close>.\<close>

definition timer_message :: "nat \<Rightarrow> procs \<Rightarrow> int \<Rightarrow> gui \<Rightarrow> (error + gui) option" where
  "timer_message n P timer_id s =
     (if timer_id = monitor_timer s
      then (case monitor_loop n P (list_begin (monitors s)) s of
              None \<Rightarrow> None
            | Some (Inl e) \<Rightarrow> Some (Inl e)
            | Some (Inr s') \<Rightarrow>
                Some (Inr (if monitors s' = [] then jmanager_stop_timer (monitor_timer s') s'
                           else s')))
      else Some (Inr s))"

section \<open>The idle hook (\<open>gui_feedback\<close>)\<close>

definition REBUILD_RECENT_LIST :: "32 word" where
  "REBUILD_RECENT_LIST = 2"

definition REFRESH_FULL_SCREEN :: "32 word" where
  "REFRESH_FULL_SCREEN = 4"

text \<open>
  What the hook reads from outside the module: the result of \<open>app_realloc_recent_list()\<close>,
  the sprite of the current context, whether \<open>ase_mode\<close> has \<open>MODE_GUI\<close>, whether
  \<open>set_current_palette\<close> reports a changed palette (\<open>None\<close> selects the default palette),
  whether a dirty region is tracked, and whether the off-screen buffer has the size of the
  screen.
\<close>

record idle_env =
  app_realloc_recent_list :: bool
  current_sprite :: "Sprite option"
  mode_gui :: bool
  set_current_palette :: "Sprite option \<Rightarrow> bool"
  ji_dirty_region :: bool
  ji_screen_is_screen :: bool

text \<open>\<open>display_switch_in_callback\<close> and \<open>schedule_rebuild_recent_list\<close>\<close>

definition display_switch_in_callback :: "gui \<Rightarrow> gui" where
  "display_switch_in_callback s =
     s\<lparr>next_idle_flags := next_idle_flags s OR REFRESH_FULL_SCREEN\<rparr>"

definition schedule_rebuild_recent_list :: "gui \<Rightarrow> gui" where
  "schedule_rebuild_recent_list s =
     s\<lparr>next_idle_flags := next_idle_flags s OR REBUILD_RECENT_LIST\<rparr>"

text \<open>
  \<open>update_screen_for_sprite\<close>. The first event marks the call itself, so that the trace
  counts the refresh passes.
\<close>

definition update_screen_for_sprite :: "idle_env \<Rightarrow> Sprite option \<Rightarrow> gui \<Rightarrow> gui" where
  "update_screen_for_sprite I sprite s =
     (let s0 = call (Update_screen_for_sprite sprite) s
      in if \<not> mode_gui I then s0
         else
           let s1 = call (Set_current_palette sprite) s0;
               s2 = (case sprite of
                       None \<Rightarrow>
                         if set_current_palette I None then call Jmanager_refresh_screen s1
                         else s1
                     | Some sp \<Rightarrow>
                         if set_current_palette I (Some sp) then call Jmanager_refresh_screen s1
                         else call (Update_editors_with_sprite sp) s1)
           in call Statusbar_set_text s2)"

text \<open>\<open>gui_feedback\<close>\<close>

definition gui_feedback :: "idle_env \<Rightarrow> gui \<Rightarrow> gui" where
  "gui_feedback I s =
     (let s1 = (if next_idle_flags s AND REBUILD_RECENT_LIST \<noteq> 0
                then (let s' = call App_realloc_recent_list s
                      in if app_realloc_recent_list I
                         then s'\<lparr>next_idle_flags := next_idle_flags s' XOR REBUILD_RECENT_LIST\<rparr>
                         else s')
                else s);
          s2 = (if next_idle_flags s1 AND REFRESH_FULL_SCREEN \<noteq> 0
                then update_screen_for_sprite I (current_sprite I)
                       (s1\<lparr>next_idle_flags := next_idle_flags s1 XOR REFRESH_FULL_SCREEN\<rparr>)
                else s1);
          s3 = call Rec_screen_poll s2
      in if double_buffering s3
         then (let s4 = call Jmouse_draw_cursor s3
               in if ji_dirty_region I then call Ji_flip_dirty_region s4
                  else if ji_screen_is_screen I then call Blit s4
                  else call Stretch_blit s4)
         else s3)"

text \<open>The \<open>JM_QUEUEPROCESSING\<close> case of \<open>manager_msg_proc\<close>: one iteration of the loop.\<close>

definition queue_processing :: "idle_env \<Rightarrow> gui \<Rightarrow> gui" where
  "queue_processing I s = call Check_for_dropped_files (gui_feedback I s)"

text \<open>
  \<open>manager_msg_proc\<close>: the three cases, with the value the handler returns. Every other
  message is left alone.
\<close>

datatype JMessage =
    JM_QUEUEPROCESSING
  | JM_TIMER int
  | JM_KEYPRESSED key_message
  | JM_OTHER

definition manager_msg_proc ::
  "nat \<Rightarrow> env \<Rightarrow> idle_env \<Rightarrow> procs \<Rightarrow> JMessage \<Rightarrow> gui \<Rightarrow> (error + bool \<times> gui) option" where
  "manager_msg_proc n E I P msg s =
     (case msg of
        JM_QUEUEPROCESSING \<Rightarrow> Some (Inr (False, queue_processing I s))
      | JM_TIMER timer_id \<Rightarrow>
          (case timer_message n P timer_id s of
             None \<Rightarrow> None
           | Some (Inl e) \<Rightarrow> Some (Inl e)
           | Some (Inr s') \<Rightarrow> Some (Inr (False, s')))
      | JM_KEYPRESSED k \<Rightarrow> Some (key_pressed E k s)
      | JM_OTHER \<Rightarrow> Some (Inr (False, s)))"

section \<open>Loading widgets\<close>

text \<open>
  The conditions \<open>widget_file_not_found\<close> and \<open>widget_not_found\<close> (ase_exception.h) are
  thrown with the name that was looked for. A function that throws returns the condition
  to its caller as the left value.
\<close>

datatype ase_exception = widget_file_not_found string | widget_not_found string

text \<open>
  What the two functions read from outside: \<open>exists\<close> of the file system,
  \<open>filename_in_datadir\<close> (the candidate paths in the data directories),
  \<open>ji_load_widget\<close> and \<open>jwidget_find_name\<close> of the toolkit (null is \<open>None\<close>).
\<close>

record widget_env =
  file_exists :: "string \<Rightarrow> bool"
  filename_in_datadir :: "string \<Rightarrow> string list"
  ji_load_widget :: "string \<Rightarrow> string \<Rightarrow> JWidget option"
  jwidget_find_name :: "JWidget \<Rightarrow> string \<Rightarrow> JWidget option"

text \<open>
  \<open>load_widget\<close>. The name \<open>jids/<filename>\<close> is formatted into \<open>char buf[512]\<close> by
  \<open>usprintf\<close>. The searched paths are the file name as given, then the paths of that name
  in the data directories. The first path that exists is copied into the same array by
  \<open>ustrcpy\<close> and loaded from there. A thrown condition is the left value of the result,
  inside the right value that says that the call is no fault.
\<close>

definition load_widget_dirs :: "widget_env \<Rightarrow> string \<Rightarrow> string \<Rightarrow> string list" where
  "load_widget_dirs W filename buf = filename # filename_in_datadir W buf"

definition load_widget ::
  "widget_env \<Rightarrow> string \<Rightarrow> string \<Rightarrow> error + ase_exception + JWidget" where
  "load_widget W filename name =
     (case usprintf 512 (''jids/'' @ filename) of
        Inl e \<Rightarrow> Inl e
      | Inr buf \<Rightarrow>
          (case find (file_exists W) (load_widget_dirs W filename buf) of
             None \<Rightarrow> Inr (Inl (widget_file_not_found filename))
           | Some path \<Rightarrow>
               (case ustrcpy 512 path of
                  Inl e \<Rightarrow> Inl e
                | Inr buf' \<Rightarrow>
                    (case ji_load_widget W buf' name of
                       None \<Rightarrow> Inr (Inl (widget_not_found name))
                     | Some widget \<Rightarrow> Inr (Inr widget)))))"

text \<open>\<open>find_widget\<close>\<close>

definition find_widget :: "widget_env \<Rightarrow> JWidget \<Rightarrow> string \<Rightarrow> ase_exception + JWidget" where
  "find_widget W widget name =
     (case jwidget_find_name W widget name of
        None \<Rightarrow> Inl (widget_not_found name)
      | Some child \<Rightarrow> Inr child)"

section \<open>Notions used to state the properties\<close>

subsection \<open>The shortcut table\<close>

text \<open>
  A table is well formed when every binding holds an allocated accelerator, as the
  constructor leaves it.
\<close>

definition jaccel_valid :: "gui \<Rightarrow> JAccel option \<Rightarrow> bool" where
  "jaccel_valid s a = (case a of Some h \<Rightarrow> h < length (jaccels s) | None \<Rightarrow> False)"

definition shortcuts_wf :: "gui \<Rightarrow> bool" where
  "shortcuts_wf s = list_all (\<lambda>sh. jaccel_valid s (accel sh)) (shortcuts s)"

text \<open>
  Sequences of binding operations, run from left to right until one of them is a fault;
  the operations whose command is registered; and the chords that \<open>add_shortcut\<close> can
  hold: the chord, its two brackets and the terminating zero fill at most the 256 bytes of
  the array, so the chord has at most 253 bytes.
\<close>

datatype bind_op = Bind_command string string "Params option" | Bind_tool string "Tool option"

fun apply_bind :: "env \<Rightarrow> bind_op \<Rightarrow> gui \<Rightarrow> error + gui" where
  "apply_bind E (Bind_command str name ps) s =
     map_sum id snd (add_keyboard_shortcut_to_execute_command E str name ps s)"
| "apply_bind E (Bind_tool str t) s =
     map_sum id snd (add_keyboard_shortcut_to_change_tool E str t s)"

fun run_binds :: "env \<Rightarrow> bind_op list \<Rightarrow> gui \<Rightarrow> error + gui" where
  "run_binds E [] s = Inr s"
| "run_binds E (b # bs) s =
     (case apply_bind E b s of Inl e \<Rightarrow> Inl e | Inr s' \<Rightarrow> run_binds E bs s')"

fun bind_registered :: "env \<Rightarrow> bind_op \<Rightarrow> bool" where
  "bind_registered E (Bind_command str name ps) = (get_command_by_name E name \<noteq> None)"
| "bind_registered E (Bind_tool str t) = True"

definition chord_fits :: "string \<Rightarrow> bool" where
  "chord_fits str = (length str \<le> 253)"

fun bind_fits :: "bind_op \<Rightarrow> bool" where
  "bind_fits (Bind_command str name ps) = chord_fits str"
| "bind_fits (Bind_tool str t) = chord_fits str"

text \<open>
  The keys of the bindings in the table: (command, parameters) for the bindings that
  execute a command, absent parameters counting as the empty set, and the tool for the
  bindings that change the tool.
\<close>

definition command_bindings :: "gui \<Rightarrow> (Command option \<times> Params) list" where
  "command_bindings s =
     map (\<lambda>sh. (command sh, case params sh of Some p \<Rightarrow> p | None \<Rightarrow> []))
       (filter (\<lambda>sh. type sh = Shortcut_ExecuteCommand) (shortcuts s))"

definition tool_bindings :: "gui \<Rightarrow> Tool option list" where
  "tool_bindings s = map tool (filter (\<lambda>sh. type sh = Shortcut_ChangeTool) (shortcuts s))"

definition table_inv :: "gui \<Rightarrow> bool" where
  "table_inv s =
     (shortcuts_wf s \<and>
      list_all (\<lambda>sh. type sh = Shortcut_ExecuteCommand \<longrightarrow> params sh \<noteq> None) (shortcuts s) \<and>
      distinct (command_bindings s) \<and>
      distinct (tool_bindings s))"

text \<open>
  \<open>rebound E str i t r\<close>: the result \<open>r\<close> of binding the chord \<open>str\<close> in the table \<open>t\<close> went
  to the existing binding \<open>i\<close>: the table is the same, the accelerator returned is the
  binding's, its alternatives are the old ones followed by the new ones, and it matches
  exactly the messages that the old or the new chords match.
\<close>

definition rebound :: "env \<Rightarrow> string \<Rightarrow> nat \<Rightarrow> gui \<Rightarrow> JAccel option \<times> gui \<Rightarrow> bool" where
  "rebound E str i t r =
     (shortcuts (snd r) = shortcuts t \<and>
      length (shortcuts (snd r)) = length (shortcuts t) \<and>
      fst r = accel (shortcuts t ! i) \<and>
      (\<exists>h. fst r = Some h \<and>
           jaccel_keys (snd r) h = jaccel_keys t h @ jaccel_parse E (''<'' @ str @ ''>'')) \<and>
      (\<forall>msg. is_key_pressed (snd r) (shortcuts t ! i) msg \<longleftrightarrow>
             is_key_pressed t (shortcuts t ! i) msg \<or>
             jaccel_check (jaccel_parse E (''<'' @ str @ ''>''))
               (shifts msg) (ascii msg) (scancode msg)))"

subsection \<open>Sample values\<close>

text \<open>The statics as \<open>init_module_gui\<close> leaves them.\<close>

definition gui_start :: gui where
  "gui_start =
     \<lparr>shortcuts = [], jaccels = [], monitors = [], monitor_store = [], monitor_timer = - 1,
      timers = [], next_idle_flags = 0, double_buffering = False, current_tool = None,
      trace = []\<rparr>"

text \<open>
  A chord grammar that knows three chords, and collaborators with two commands, two
  tools and two windows of which the second is the desktop and top window.
\<close>

definition sample_parse :: "string \<Rightarrow> KeyCombo list" where
  "sample_parse str =
     (if str = ''<N>'' then [(0, Scancode 14)]
      else if str = ''<M>'' then [(0, Scancode 13)]
      else if str = ''<Ctrl+N>'' then [(2, Scancode 14)]
      else [])"

definition sample_env :: env where
  "sample_env =
     \<lparr>get_command_by_name =
        (\<lambda>name. if name = ''new_file'' then Some 0
                else if name = ''screen_shot'' then Some 1 else None),
      short_name = (\<lambda>c. if c = 0 then ''new_file'' else ''screen_shot''),
      screen_shot = ''screen_shot'',
      jaccel_parse = sample_parse,
      tools_list = [0, 1],
      children = [7, 8],
      jwindow_is_foreground = (\<lambda>w. False),
      jwindow_is_desktop = (\<lambda>w. w = 8),
      app_get_top_window = Some 8\<rparr>"


subsection \<open>Key-press dispatch\<close>

text \<open>
  The group of the spec: the tools, in the order of \<open>tools_list\<close>, whose own binding
  matches the message. A tool without a binding matches nothing.
\<close>

definition binding_pressed :: "gui \<Rightarrow> key_message \<Rightarrow> Tool \<Rightarrow> bool" where
  "binding_pressed s msg t =
     (case get_keyboard_shortcut_for_tool (Some t) s of
        Some j \<Rightarrow> is_key_pressed s (shortcuts s ! j) msg
      | None \<Rightarrow> False)"

definition matching_tools :: "env \<Rightarrow> gui \<Rightarrow> key_message \<Rightarrow> Tool list" where
  "matching_tools E s msg = filter (binding_pressed s msg) (tools_list E)"

text \<open>
  The first element of a list that passes the test \<open>T\<close> exists and passes \<open>Q\<close>: with
  \<open>T\<close> the test of a tool's binding and \<open>Q\<close> the match of the message, this is
  \<open>binding_pressed\<close> on any table.
\<close>

definition pressed_at :: "('a \<Rightarrow> bool) \<Rightarrow> ('a \<Rightarrow> bool) \<Rightarrow> 'a list \<Rightarrow> bool" where
  "pressed_at Q T xs = (case first_index T xs of Some j \<Rightarrow> Q (xs ! j) | None \<Rightarrow> False)"

text \<open>Every tool of \<open>tools_list\<close> has a binding.\<close>

definition all_tools_bound :: "env \<Rightarrow> gui \<Rightarrow> bool" where
  "all_tools_bound E s =
     list_all (\<lambda>t. get_keyboard_shortcut_for_tool (Some t) s \<noteq> None) (tools_list E)"

text \<open>
  Some child of the manager is a desktop window and the application's top window, and
  neither it nor a child before it in the manager's list is a foreground window.
\<close>

definition main_window_unobstructed :: "env \<Rightarrow> bool" where
  "main_window_unobstructed E =
     (\<exists>k<length (children E).
        jwindow_is_desktop E (children E ! k) \<and>
        Some (children E ! k) = app_get_top_window E \<and>
        (\<forall>j\<le>k. \<not> jwindow_is_foreground E (children E ! j)))"

text \<open>
  Sample tables and messages: the key N; two tools bound to N in the order of
  \<open>tools_list\<close> and in the reverse order; one tool of two bound; a command bound to N;
  and a manager whose foreground window comes after the desktop window. \<open>table_after\<close>
  is the table that a run of binding operations returns (the start table when the run is
  a fault, which none of the samples is).
\<close>

definition key_N :: key_message where
  "key_N = \<lparr>shifts = 0, ascii = 110, scancode = 14\<rparr>"

definition table_after :: "error + gui \<Rightarrow> gui" where
  "table_after r = (case r of Inr s \<Rightarrow> s | Inl e \<Rightarrow> gui_start)"

definition tools_bound_in_order :: gui where
  "tools_bound_in_order =
     (table_after
        (run_binds sample_env [Bind_tool ''N'' (Some 0), Bind_tool ''N'' (Some 1)] gui_start))
       \<lparr>current_tool := Some 0\<rparr>"

definition tools_bound_in_reverse :: gui where
  "tools_bound_in_reverse =
     (table_after
        (run_binds sample_env [Bind_tool ''N'' (Some 1), Bind_tool ''N'' (Some 0)] gui_start))
       \<lparr>current_tool := Some 1\<rparr>"

definition one_tool_bound :: gui where
  "one_tool_bound = table_after (run_binds sample_env [Bind_tool ''N'' (Some 0)] gui_start)"

definition command_bound :: gui where
  "command_bound =
     table_after (run_binds sample_env [Bind_command ''N'' ''new_file'' None] gui_start)"

definition dialog_behind_env :: env where
  "dialog_behind_env =
     sample_env\<lparr>children := [8, 9], jwindow_is_foreground := (\<lambda>w. w = 9)\<rparr>"


subsection \<open>The idle hook\<close>

text \<open>
  A refresh pass is a call of \<open>update_screen_for_sprite\<close>; a rebuild attempt is a call of
  \<open>app_realloc_recent_list\<close>. The new events of a step are the ones it appended to the
  trace.
\<close>

fun is_refresh_pass :: "event \<Rightarrow> bool" where
  "is_refresh_pass (Update_screen_for_sprite sprite) = True"
| "is_refresh_pass e = False"

definition refresh_passes :: "event list \<Rightarrow> nat" where
  "refresh_passes tr = length (filter is_refresh_pass tr)"

definition rebuild_attempts :: "event list \<Rightarrow> nat" where
  "rebuild_attempts tr = length (filter (\<lambda>e. e = App_realloc_recent_list) tr)"

definition new_events :: "gui \<Rightarrow> gui \<Rightarrow> event list" where
  "new_events s s' = drop (length (trace s)) (trace s')"

text \<open>
  The three parts of \<open>gui_feedback\<close> in the order of the source: the recent-list flag,
  the refresh flag, and the recording poll with the flush of the off-screen buffer.
\<close>

definition rebuild_step :: "idle_env \<Rightarrow> gui \<Rightarrow> gui" where
  "rebuild_step I s =
     (if next_idle_flags s AND REBUILD_RECENT_LIST \<noteq> 0
      then (let s' = call App_realloc_recent_list s
            in if app_realloc_recent_list I
               then s'\<lparr>next_idle_flags := next_idle_flags s' XOR REBUILD_RECENT_LIST\<rparr>
               else s')
      else s)"

definition refresh_step :: "idle_env \<Rightarrow> gui \<Rightarrow> gui" where
  "refresh_step I s1 =
     (if next_idle_flags s1 AND REFRESH_FULL_SCREEN \<noteq> 0
      then update_screen_for_sprite I (current_sprite I)
             (s1\<lparr>next_idle_flags := next_idle_flags s1 XOR REFRESH_FULL_SCREEN\<rparr>)
      else s1)"

definition flush_step :: "idle_env \<Rightarrow> gui \<Rightarrow> gui" where
  "flush_step I s2 =
     (let s3 = call Rec_screen_poll s2
      in if double_buffering s3
         then (let s4 = call Jmouse_draw_cursor s3
               in if ji_dirty_region I then call Ji_flip_dirty_region s4
                  else if ji_screen_is_screen I then call Blit s4
                  else call Stretch_blit s4)
         else s3)"

text \<open>
  Sample collaborators: a current sprite whose palette is the current one and a recent
  list that can be rebuilt; the same with the recent-list menu open, so that the rebuild
  is refused; and the state with the rebuild scheduled.
\<close>

definition sample_idle :: idle_env where
  "sample_idle =
     \<lparr>app_realloc_recent_list = True, current_sprite = Some 3, mode_gui = True,
      set_current_palette = (\<lambda>sprite. False), ji_dirty_region = False,
      ji_screen_is_screen = True\<rparr>"

definition menu_open_idle :: idle_env where
  "menu_open_idle = sample_idle\<lparr>app_realloc_recent_list := False\<rparr>"

definition rebuild_pending :: gui where
  "rebuild_pending = schedule_rebuild_recent_list gui_start"

subsection \<open>Loading widgets\<close>

text \<open>
  The paths that \<open>load_widget\<close> searches for a file name, and the names and paths that
  its array of 512 bytes can hold: a name of at most 506 bytes (with the five bytes of
  \<open>jids/\<close> and the terminating zero) and a path of at most 511 bytes.
\<close>

definition searched_paths :: "widget_env \<Rightarrow> string \<Rightarrow> string list" where
  "searched_paths W filename = load_widget_dirs W filename (''jids/'' @ filename)"

definition name_fits :: "string \<Rightarrow> bool" where
  "name_fits filename = (length filename \<le> 506)"

definition path_fits :: "string \<Rightarrow> bool" where
  "path_fits path = (length path \<le> 511)"

text \<open>
  Sample collaborators: the layout file is in the data directory and holds the window
  \<open>new_layer\<close> with a child \<open>ok\<close> but no child \<open>name\<close>; the same without any file; and a
  file name of 507 bytes.
\<close>

definition sample_widgets :: widget_env where
  "sample_widgets =
     \<lparr>file_exists = (\<lambda>path. path = ''data/jids/newlay.jid''),
      filename_in_datadir = (\<lambda>f. [''data/'' @ f]),
      ji_load_widget = (\<lambda>path name. if name = ''new_layer'' then Some 20 else None),
      jwidget_find_name = (\<lambda>w name. if name = ''ok'' then Some 21 else None)\<rparr>"

definition no_files :: widget_env where
  "no_files = sample_widgets\<lparr>file_exists := (\<lambda>path. False)\<rparr>"

definition long_name :: string where
  "long_name = replicate 503 CHR ''a'' @ ''.jid''"


subsection \<open>The monitor timer\<close>

text \<open>
  The timer of the monitors is allocated when \<open>monitor_timer\<close> is the id of a timer of the
  manager, and running when that timer's flag is set. The invariant: \<open>monitor_timer\<close> is
  negative (never allocated) or allocated, and the timer runs exactly when there are
  monitors.
\<close>

definition timer_allocated :: "gui \<Rightarrow> bool" where
  "timer_allocated s = (0 \<le> monitor_timer s \<and> nat (monitor_timer s) < length (timers s))"

definition timer_running :: "gui \<Rightarrow> bool" where
  "timer_running s = (timer_allocated s \<and> timers s ! nat (monitor_timer s))"

definition timer_inv :: "gui \<Rightarrow> bool" where
  "timer_inv s =
     ((monitor_timer s < 0 \<or> timer_allocated s) \<and> (timer_running s \<longleftrightarrow> monitors s \<noteq> []))"

text \<open>
  A step from \<open>s\<close> to \<open>s'\<close> keeps the timer: when the invariant holds before, it holds
  after, and an allocated timer is still allocated under the same id.
\<close>

definition keeps_timer :: "gui \<Rightarrow> gui \<Rightarrow> bool" where
  "keeps_timer s s' =
     (timer_inv s \<longrightarrow>
        timer_inv s' \<and>
        (timer_allocated s \<longrightarrow> timer_allocated s' \<and> monitor_timer s' = monitor_timer s))"

text \<open>
  The three operations on the monitors: registering, removing, and the timer's message
  for the manager.
\<close>

datatype monitor_op = Op_add nat "nat option" nat | Op_remove MonitorPtr | Op_timer

fun monitor_step :: "nat \<Rightarrow> procs \<Rightarrow> monitor_op \<Rightarrow> gui \<Rightarrow> (error + gui) option" where
  "monitor_step n P (Op_add p f d) s = Some (Inr (snd (add_gui_monitor p f d s)))"
| "monitor_step n P (Op_remove m) s = Some (remove_gui_monitor m s)"
| "monitor_step n P Op_timer s = timer_message n P (monitor_timer s) s"

text \<open>
  Sample poll functions and states. Function 0 removes the monitor 1, function 2 removes
  the monitor whose handle is its user data (itself, below), every other function calls
  nothing. The states: one monitor; two monitors of which the first polls with function
  0; one monitor that removes itself.
\<close>

definition sample_procs :: procs where
  "sample_procs p d s =
     (if p = 0 then [Call_remove_gui_monitor 1]
      else if p = 2 then [Call_remove_gui_monitor d]
      else [])"

definition one_monitor :: gui where
  "one_monitor = snd (add_gui_monitor 1 (Some 8) 0 gui_start)"

definition two_monitors :: gui where
  "two_monitors =
     snd (add_gui_monitor 1 (Some 8) 0 (snd (add_gui_monitor 0 None 0 gui_start)))"

definition self_removing :: gui where
  "self_removing = snd (add_gui_monitor 2 (Some 9) 0 gui_start)"


section \<open>Properties of the shortcut table\<close>

subsection \<open>Searching a vector\<close>

lemma first_index_Some:
  "first_index P xs = Some i \<Longrightarrow> i < length xs \<and> P (xs ! i) \<and> (\<forall>j<i. \<not> P (xs ! j))"
proof (induction xs arbitrary: i)
  case Nil
  then show ?case by simp
next
  case (Cons x xs)
  show ?case
  proof (cases "P x")
    case True
    with Cons.prems show ?thesis by simp
  next
    case False
    with Cons.prems obtain k where k: "first_index P xs = Some k" "i = Suc k"
      by auto
    from Cons.IH [OF k(1)] False k(2) show ?thesis
      by (auto simp: nth_Cons split: nat.splits)
  qed
qed

lemma first_index_None: "first_index P xs = None \<longleftrightarrow> (\<forall>x\<in>set xs. \<not> P x)"
  by (induction xs) auto

lemma first_index_snoc_None:
  "first_index P xs = None \<Longrightarrow> P y \<Longrightarrow> first_index P (xs @ [y]) = Some (length xs)"
  by (induction xs) auto

lemma shortcuts_wf_nth:
  "shortcuts_wf s \<Longrightarrow> i < length (shortcuts s) \<Longrightarrow>
   \<exists>a. accel (shortcuts s ! i) = Some a \<and> a < length (jaccels s)"
  by (auto simp: shortcuts_wf_def jaccel_valid_def list_all_length split: option.splits)

lemma jaccel_check_append:
  "jaccel_check (ks @ ks') sh asc scan \<longleftrightarrow> jaccel_check ks sh asc scan \<or> jaccel_check ks' sh asc scan"
  by (simp add: jaccel_check_def list_ex_iff) blast

text \<open>What \<open>add_shortcut\<close> returns, and when it is a fault.\<close>

lemma add_shortcut_Inr:
  "add_shortcut E sh str s = Inr s' \<longleftrightarrow>
   chord_fits str \<and> s' = jaccel_add_keys_from_string E (accel sh) (''<'' @ str @ ''>'') s"
  by (auto simp: add_shortcut_def usprintf_def chord_fits_def)

lemma add_shortcut_Inl:
  "add_shortcut E sh str s = Inl e \<longleftrightarrow> \<not> chord_fits str \<and> e = Buffer_overflow"
  by (auto simp: add_shortcut_def usprintf_def chord_fits_def)

lemma add_keys_shortcuts [simp]:
  "shortcuts (jaccel_add_keys_from_string E a buf s) = shortcuts s"
  by (simp add: jaccel_add_keys_from_string_def split: option.splits)

lemma add_keys_keys:
  "h < length (jaccels s) \<Longrightarrow>
   jaccel_keys (jaccel_add_keys_from_string E (Some h) buf s) b =
     (if b = h then jaccel_keys s h @ jaccel_parse E buf else jaccel_keys s b)"
  by (simp add: jaccel_add_keys_from_string_def jaccel_keys_def)

lemma add_keys_length [simp]:
  "length (jaccels (jaccel_add_keys_from_string E a buf s)) = length (jaccels s)"
  by (simp add: jaccel_add_keys_from_string_def split: option.splits)

lemma jaccel_valid_add_keys [simp]:
  "jaccel_valid (jaccel_add_keys_from_string E a buf s) b = jaccel_valid s b"
  by (simp add: jaccel_valid_def split: option.splits)

lemma is_key_pressed_add_keys:
  assumes "accel sh = Some h" "h < length (jaccels s)"
  shows "is_key_pressed (jaccel_add_keys_from_string E (Some h) buf s) sh msg \<longleftrightarrow>
         is_key_pressed s sh msg \<or>
         jaccel_check (jaccel_parse E buf) (shifts msg) (ascii msg) (scancode msg)"
  using assms by (simp add: is_key_pressed_def add_keys_keys jaccel_check_append)

text \<open>
  The two binding functions return exactly for the chords that fit the array, and are the
  fault of the overflow for every longer chord.
\<close>

lemma add_command_Inl:
  "add_keyboard_shortcut_to_execute_command E str name ps s = Inl e \<longleftrightarrow>
   \<not> chord_fits str \<and> e = Buffer_overflow"
  by (auto simp: add_keyboard_shortcut_to_execute_command_def Let_def add_shortcut_Inl
      add_shortcut_Inr split: option.splits prod.splits sum.splits)

lemma add_tool_Inl:
  "add_keyboard_shortcut_to_change_tool E str t s = Inl e \<longleftrightarrow>
   \<not> chord_fits str \<and> e = Buffer_overflow"
  by (auto simp: add_keyboard_shortcut_to_change_tool_def Let_def add_shortcut_Inl
      add_shortcut_Inr split: option.splits prod.splits sum.splits)

lemma add_command_returns:
  "chord_fits str \<Longrightarrow> \<exists>a s'. add_keyboard_shortcut_to_execute_command E str name ps s = Inr (a, s')"
  by (cases "add_keyboard_shortcut_to_execute_command E str name ps s")
    (auto simp: add_command_Inl)

lemma add_tool_returns:
  "chord_fits str \<Longrightarrow> \<exists>a s'. add_keyboard_shortcut_to_change_tool E str t s = Inr (a, s')"
  by (cases "add_keyboard_shortcut_to_change_tool E str t s")
    (auto simp: add_tool_Inl)

lemma add_command_cases:
  assumes "add_keyboard_shortcut_to_execute_command E str name ps s = Inr (a, s')"
  shows "(\<exists>i. get_keyboard_shortcut_for_command E name ps s = Some i \<and>
              a = accel (shortcuts s ! i) \<and>
              s' = jaccel_add_keys_from_string E a (''<'' @ str @ ''>'') s) \<or>
         (get_keyboard_shortcut_for_command E name ps s = None \<and>
            a = Some (length (jaccels s)) \<and>
            shortcuts s' = shortcuts s @
               [\<lparr>accel = Some (length (jaccels s)), type = Shortcut_ExecuteCommand,
                 command = get_command_by_name E name, tool = None,
                 params = Some (case ps of Some p \<Rightarrow> p | None \<Rightarrow> [])\<rparr>] \<and>
            jaccels s' = jaccels s @ [jaccel_parse E (''<'' @ str @ ''>'')])"
  using assms
  by (auto simp: add_keyboard_shortcut_to_execute_command_def Let_def Shortcut_new_def
      jaccel_new_def add_shortcut_Inr jaccel_add_keys_from_string_def
      split: option.splits prod.splits sum.splits)

lemma add_tool_cases:
  assumes "add_keyboard_shortcut_to_change_tool E str t s = Inr (a, s')"
  shows "(\<exists>i. get_keyboard_shortcut_for_tool t s = Some i \<and>
              a = accel (shortcuts s ! i) \<and>
              s' = jaccel_add_keys_from_string E a (''<'' @ str @ ''>'') s) \<or>
         (get_keyboard_shortcut_for_tool t s = None \<and>
            a = Some (length (jaccels s)) \<and>
            shortcuts s' = shortcuts s @
               [\<lparr>accel = Some (length (jaccels s)), type = Shortcut_ChangeTool,
                 command = None, tool = t, params = None\<rparr>] \<and>
            jaccels s' = jaccels s @ [jaccel_parse E (''<'' @ str @ ''>'')])"
  using assms
  by (auto simp: add_keyboard_shortcut_to_change_tool_def Let_def Shortcut_new_def
      jaccel_new_def add_shortcut_Inr jaccel_add_keys_from_string_def
      split: option.splits prod.splits sum.splits)

lemma new_command_shortcut_test:
  "command_shortcut_test c ps
     \<lparr>accel = a, type = Shortcut_ExecuteCommand, command = Some c, tool = None,
      params = Some (case ps of Some p \<Rightarrow> p | None \<Rightarrow> [])\<rparr>"
  by (simp add: command_shortcut_test_def split: option.splits)

text \<open>A run of binding operations returns exactly when every chord in it fits.\<close>

lemma map_sum_Inl_iff: "map_sum id f r = Inl e \<longleftrightarrow> r = Inl e"
  by (cases r) simp_all

lemma apply_bind_Inl:
  "apply_bind E b s = Inl e \<longleftrightarrow> \<not> bind_fits b \<and> e = Buffer_overflow"
  by (cases b) (simp_all add: map_sum_Inl_iff add_command_Inl add_tool_Inl)

lemma run_binds_returns_iff:
  "(\<exists>t. run_binds E bs s = Inr t) \<longleftrightarrow> (\<forall>b\<in>set bs. bind_fits b)"
proof (induction bs arbitrary: s)
  case Nil
  show ?case by simp
next
  case (Cons b bs)
  show ?case
  proof (cases "apply_bind E b s")
    case (Inl e)
    then have "\<not> bind_fits b"
      by (simp add: apply_bind_Inl)
    with Inl show ?thesis by simp
  next
    case (Inr s')
    have "bind_fits b"
    proof (rule ccontr)
      assume "\<not> bind_fits b"
      then have "apply_bind E b s = Inl Buffer_overflow"
        by (simp add: apply_bind_Inl)
      with Inr show False by simp
    qed
    with Inr Cons.IH [of s'] show ?thesis by simp
  qed
qed

text \<open>Every table built by binding operations from the empty table is well formed.\<close>

lemma shortcuts_wf_add_command:
  assumes "shortcuts_wf s"
      and add: "add_keyboard_shortcut_to_execute_command E str name ps s = Inr (a, s')"
  shows "shortcuts_wf s'"
  using add_command_cases [OF add] assms(1)
  by (fastforce simp: shortcuts_wf_def jaccel_valid_def list_all_iff less_Suc_eq split: option.splits)

lemma shortcuts_wf_add_tool:
  assumes "shortcuts_wf s"
      and add: "add_keyboard_shortcut_to_change_tool E str t s = Inr (a, s')"
  shows "shortcuts_wf s'"
  using add_tool_cases [OF add] assms(1)
  by (fastforce simp: shortcuts_wf_def jaccel_valid_def list_all_iff less_Suc_eq split: option.splits)

lemma apply_bind_Inr:
  "apply_bind E b s = Inr s' \<Longrightarrow>
   (\<exists>str name ps a. b = Bind_command str name ps \<and>
      add_keyboard_shortcut_to_execute_command E str name ps s = Inr (a, s')) \<or>
   (\<exists>str t a. b = Bind_tool str t \<and>
      add_keyboard_shortcut_to_change_tool E str t s = Inr (a, s'))"
proof (cases b)
  case (Bind_command str name ps)
  assume "apply_bind E b s = Inr s'"
  with Bind_command show ?thesis
    by (cases "add_keyboard_shortcut_to_execute_command E str name ps s") auto
next
  case (Bind_tool str t)
  assume "apply_bind E b s = Inr s'"
  with Bind_tool show ?thesis
    by (cases "add_keyboard_shortcut_to_change_tool E str t s") auto
qed

lemma shortcuts_wf_run_binds:
  "shortcuts_wf s \<Longrightarrow> run_binds E bs s = Inr t \<Longrightarrow> shortcuts_wf t"
proof (induction bs arbitrary: s)
  case Nil
  then show ?case by simp
next
  case (Cons b bs)
  from Cons.prems(2) obtain s' where s': "apply_bind E b s = Inr s'" "run_binds E bs s' = Inr t"
    by (auto split: sum.splits)
  from apply_bind_Inr [OF s'(1)] Cons.prems(1) have "shortcuts_wf s'"
    by (auto intro: shortcuts_wf_add_command shortcuts_wf_add_tool)
  from Cons.IH [OF this s'(2)] show ?case .
qed

subsection \<open>Binding a command, then looking it up\<close>

text \<open>
  Claim C9, as amended. For every command name that the registry knows, every parameter
  set (or none) and every chord string of at most 253 bytes (the chords that fit the
  array of \<open>add_shortcut\<close>): \<open>add_keyboard_shortcut_to_execute_command\<close> on a well-formed
  table (as every table built by the binding operations is) returns, and after it
  \<open>get_keyboard_shortcut_for_command\<close> with the same name and parameters finds a binding
  whose accelerator is the very handle that the call returned,
  \<open>get_accel_to_execute_command\<close> returns that handle, the handle is not null, every chord
  parsed from the string is among its alternatives, and the binding matches every message
  that one of the new chords matches.
\<close>

theorem bind_command_then_find:
  assumes reg: "get_command_by_name E command_name = Some c"
      and wf: "shortcuts_wf s"
      and fits: "chord_fits str"
  shows "\<exists>a s'. add_keyboard_shortcut_to_execute_command E str command_name ps s = Inr (a, s') \<and>
           (\<exists>i h. get_keyboard_shortcut_for_command E command_name ps s' = Some i \<and>
              accel (shortcuts s' ! i) = a \<and>
              get_accel_to_execute_command E command_name ps s' = a \<and>
              a = Some h \<and>
              set (jaccel_parse E (''<'' @ str @ ''>'')) \<subseteq> set (jaccel_keys s' h) \<and>
              (\<forall>msg. jaccel_check (jaccel_parse E (''<'' @ str @ ''>''))
                       (shifts msg) (ascii msg) (scancode msg)
                     \<longrightarrow> is_key_pressed s' (shortcuts s' ! i) msg))"
proof -
  let ?buf = "''<'' @ str @ ''>''"
  let ?new = "jaccel_parse E ?buf"
  from add_command_returns [OF fits] obtain a s'
    where add: "add_keyboard_shortcut_to_execute_command E str command_name ps s = Inr (a, s')"
    by blast
  from add_command_cases [OF add]
  have "\<exists>i h. get_keyboard_shortcut_for_command E command_name ps s' = Some i \<and>
              accel (shortcuts s' ! i) = a \<and>
              get_accel_to_execute_command E command_name ps s' = a \<and>
              a = Some h \<and>
              set ?new \<subseteq> set (jaccel_keys s' h) \<and>
              (\<forall>msg. jaccel_check ?new (shifts msg) (ascii msg) (scancode msg)
                     \<longrightarrow> is_key_pressed s' (shortcuts s' ! i) msg)"
  proof (elim disjE exE conjE)
    fix i
    assume found: "get_keyboard_shortcut_for_command E command_name ps s = Some i"
      and a: "a = accel (shortcuts s ! i)"
      and s': "s' = jaccel_add_keys_from_string E a ?buf s"
    from found reg have fi: "first_index (command_shortcut_test c ps) (shortcuts s) = Some i"
      by (simp add: get_keyboard_shortcut_for_command_def)
    then have i: "i < length (shortcuts s)"
      by (simp add: first_index_Some)
    from shortcuts_wf_nth [OF wf i] obtain h
      where h: "accel (shortcuts s ! i) = Some h" "h < length (jaccels s)"
      by blast
    from a h have s'h: "s' = jaccel_add_keys_from_string E (Some h) ?buf s"
      by (simp add: s')
    have look: "get_keyboard_shortcut_for_command E command_name ps s' = Some i"
      using fi by (simp add: s'h get_keyboard_shortcut_for_command_def reg)
    have keys: "jaccel_keys s' h = jaccel_keys s h @ ?new"
      by (simp add: s'h add_keys_keys [OF h(2)])
    have pressed: "\<forall>msg. jaccel_check ?new (shifts msg) (ascii msg) (scancode msg)
                     \<longrightarrow> is_key_pressed s' (shortcuts s' ! i) msg"
      by (simp add: s'h is_key_pressed_add_keys [OF h])
    from look a h keys pressed show ?thesis
      by (simp add: get_accel_to_execute_command_def s'h)
  next
    assume none: "get_keyboard_shortcut_for_command E command_name ps s = None"
      and a: "a = Some (length (jaccels s))"
      and sh: "shortcuts s' = shortcuts s @
               [\<lparr>accel = Some (length (jaccels s)), type = Shortcut_ExecuteCommand,
                 command = get_command_by_name E command_name, tool = None,
                 params = Some (case ps of Some p \<Rightarrow> p | None \<Rightarrow> [])\<rparr>]"
      and ja: "jaccels s' = jaccels s @ [?new]"
    from none reg have fi: "first_index (command_shortcut_test c ps) (shortcuts s) = None"
      by (simp add: get_keyboard_shortcut_for_command_def)
    have look: "get_keyboard_shortcut_for_command E command_name ps s' = Some (length (shortcuts s))"
      using first_index_snoc_None [OF fi new_command_shortcut_test]
      by (simp add: get_keyboard_shortcut_for_command_def reg sh)
    have keys: "jaccel_keys s' (length (jaccels s)) = ?new"
      by (simp add: jaccel_keys_def ja)
    from look a keys show ?thesis
      by (simp add: get_accel_to_execute_command_def sh is_key_pressed_def)
  qed
  with add show ?thesis by blast
qed

lemma table_inv_add_keys:
  "table_inv s \<Longrightarrow> table_inv (jaccel_add_keys_from_string E a buf s)"
  by (simp add: table_inv_def shortcuts_wf_def command_bindings_def tool_bindings_def)

lemma table_inv_add_command:
  assumes inv: "table_inv s"
      and reg: "get_command_by_name E name \<noteq> None"
      and add: "add_keyboard_shortcut_to_execute_command E str name ps s = Inr (a, s')"
  shows "table_inv s'"
proof -
  from reg obtain c where c: "get_command_by_name E name = Some c" by auto
  let ?p = "case ps of Some p \<Rightarrow> p | None \<Rightarrow> []"
  from add_command_cases [OF add] show "table_inv s'"
  proof (elim disjE exE conjE)
    fix i
    assume "s' = jaccel_add_keys_from_string E a (''<'' @ str @ ''>'') s"
    with inv show ?thesis by (simp add: table_inv_add_keys)
  next
    assume none: "get_keyboard_shortcut_for_command E name ps s = None"
      and sh: "shortcuts s' = shortcuts s @
               [\<lparr>accel = Some (length (jaccels s)), type = Shortcut_ExecuteCommand,
                 command = get_command_by_name E name, tool = None,
                 params = Some (case ps of Some p \<Rightarrow> p | None \<Rightarrow> [])\<rparr>]"
      and ja: "jaccels s' = jaccels s @ [jaccel_parse E (''<'' @ str @ ''>'')]"
    from none c have "first_index (command_shortcut_test c ps) (shortcuts s) = None"
      by (simp add: get_keyboard_shortcut_for_command_def)
    then have no: "\<forall>x\<in>set (shortcuts s). \<not> command_shortcut_test c ps x"
      by (simp add: first_index_None)
    have fresh: "(Some c, ?p) \<notin> set (command_bindings s)"
    proof
      assume "(Some c, ?p) \<in> set (command_bindings s)"
      then obtain x where x: "x \<in> set (shortcuts s)" "type x = Shortcut_ExecuteCommand"
        "command x = Some c" "(case params x of Some p \<Rightarrow> p | None \<Rightarrow> []) = ?p"
        by (auto simp: command_bindings_def)
      from inv x(1,2) obtain q where q: "params x = Some q"
        by (auto simp: table_inv_def list_all_iff)
      with x have "command_shortcut_test c ps x"
        by (auto simp: command_shortcut_test_def split: option.splits)
      with no x(1) show False by blast
    qed
    from inv have wf': "shortcuts_wf s'"
      by (auto simp: table_inv_def shortcuts_wf_def jaccel_valid_def sh ja list_all_iff split: option.splits)
    from inv fresh wf' show ?thesis
      by (simp add: table_inv_def command_bindings_def tool_bindings_def sh c)
  qed
qed

lemma table_inv_add_tool:
  assumes inv: "table_inv s"
      and add: "add_keyboard_shortcut_to_change_tool E str t s = Inr (a, s')"
  shows "table_inv s'"
proof -
  from add_tool_cases [OF add] show "table_inv s'"
  proof (elim disjE exE conjE)
    fix i
    assume "s' = jaccel_add_keys_from_string E a (''<'' @ str @ ''>'') s"
    with inv show ?thesis by (simp add: table_inv_add_keys)
  next
    assume none: "get_keyboard_shortcut_for_tool t s = None"
      and sh: "shortcuts s' = shortcuts s @
               [\<lparr>accel = Some (length (jaccels s)), type = Shortcut_ChangeTool,
                 command = None, tool = t, params = None\<rparr>]"
      and ja: "jaccels s' = jaccels s @ [jaccel_parse E (''<'' @ str @ ''>'')]"
    from none have no: "\<forall>x\<in>set (shortcuts s). \<not> tool_shortcut_test t x"
      by (simp add: get_keyboard_shortcut_for_tool_def first_index_None)
    then have fresh: "t \<notin> set (tool_bindings s)"
      by (auto simp: tool_bindings_def tool_shortcut_test_def)
    from inv have wf': "shortcuts_wf s'"
      by (auto simp: table_inv_def shortcuts_wf_def jaccel_valid_def sh ja list_all_iff split: option.splits)
    from inv fresh wf' show ?thesis
      by (simp add: table_inv_def command_bindings_def tool_bindings_def sh)
  qed
qed

lemma table_inv_run_binds:
  "table_inv s \<Longrightarrow> \<forall>b\<in>set bs. bind_registered E b \<Longrightarrow> run_binds E bs s = Inr t \<Longrightarrow>
   table_inv t"
proof (induction bs arbitrary: s)
  case Nil
  then show ?case by simp
next
  case (Cons b bs)
  from Cons.prems(3) obtain s' where s': "apply_bind E b s = Inr s'" "run_binds E bs s' = Inr t"
    by (auto split: sum.splits)
  from apply_bind_Inr [OF s'(1)] Cons.prems(1,2) have "table_inv s'"
    by (auto intro: table_inv_add_command table_inv_add_tool)
  from Cons.IH [OF this _ s'(2)] Cons.prems(2) show ?case by simp
qed

lemma rebind_command:
  assumes wf: "shortcuts_wf t"
      and found: "get_keyboard_shortcut_for_command E name ps t = Some i"
      and fits: "chord_fits str"
  shows "\<exists>h. add_keyboard_shortcut_to_execute_command E str name ps t =
               Inr (Some h, jaccel_add_keys_from_string E (Some h) (''<'' @ str @ ''>'') t) \<and>
             accel (shortcuts t ! i) = Some h \<and> h < length (jaccels t)"
proof -
  from found have "i < length (shortcuts t)"
    by (auto simp: get_keyboard_shortcut_for_command_def first_index_Some split: option.splits)
  from shortcuts_wf_nth [OF wf this] found fits show ?thesis
    by (auto simp: add_keyboard_shortcut_to_execute_command_def Let_def add_shortcut_def
        usprintf_def chord_fits_def)
qed

lemma rebind_tool:
  assumes wf: "shortcuts_wf t"
      and found: "get_keyboard_shortcut_for_tool tool0 t = Some i"
      and fits: "chord_fits str"
  shows "\<exists>h. add_keyboard_shortcut_to_change_tool E str tool0 t =
               Inr (Some h, jaccel_add_keys_from_string E (Some h) (''<'' @ str @ ''>'') t) \<and>
             accel (shortcuts t ! i) = Some h \<and> h < length (jaccels t)"
proof -
  from found have "i < length (shortcuts t)"
    by (auto simp: get_keyboard_shortcut_for_tool_def first_index_Some)
  from shortcuts_wf_nth [OF wf this] found fits show ?thesis
    by (auto simp: add_keyboard_shortcut_to_change_tool_def Let_def add_shortcut_def
        usprintf_def chord_fits_def)
qed

lemma rebound_add_keys:
  assumes "accel (shortcuts t ! i) = Some h" "h < length (jaccels t)"
  shows "rebound E str i t (Some h, jaccel_add_keys_from_string E (Some h) (''<'' @ str @ ''>'') t)"
  using assms
  by (simp add: rebound_def add_keys_keys is_key_pressed_add_keys)

subsection \<open>One binding per key\<close>

text \<open>
  Claim C4, as amended. Start from an empty table and run any sequence of binding
  operations in which every command name is known to the registry and every chord has at
  most 253 bytes (the chords that fit the array of \<open>add_shortcut\<close>). The run returns a
  table in which no two command bindings have the same command and the same parameters
  (absent parameters are the empty set), and no two tool bindings have the same tool.
  Binding such a chord to a command or tool that already has a binding returns, leaves the
  table and its size unchanged, returns the accelerator of the existing binding, appends
  the parsed chords to its alternatives, and the binding then matches exactly the messages
  that the old chords or the new chords match. A lookup without parameters and a lookup
  with the empty parameter set find the same binding.
\<close>

theorem shortcut_table_one_binding_per_key:
  assumes empty: "shortcuts s = []"
      and reg: "\<forall>b\<in>set bs. bind_registered E b"
      and fits: "\<forall>b\<in>set bs. bind_fits b"
  shows "\<exists>t. run_binds E bs s = Inr t \<and>
           distinct (command_bindings t) \<and>
           distinct (tool_bindings t) \<and>
           (\<forall>str name ps i.
              chord_fits str \<and> get_keyboard_shortcut_for_command E name ps t = Some i \<longrightarrow>
              (\<exists>r. add_keyboard_shortcut_to_execute_command E str name ps t = Inr r \<and>
                   rebound E str i t r)) \<and>
           (\<forall>str tool0 i.
              chord_fits str \<and> get_keyboard_shortcut_for_tool tool0 t = Some i \<longrightarrow>
              (\<exists>r. add_keyboard_shortcut_to_change_tool E str tool0 t = Inr r \<and>
                   rebound E str i t r)) \<and>
           (\<forall>name. get_keyboard_shortcut_for_command E name None t =
                   get_keyboard_shortcut_for_command E name (Some []) t)"
proof -
  from fits obtain t where t: "run_binds E bs s = Inr t"
    using run_binds_returns_iff [of E bs s] by blast
  from empty have "table_inv s"
    by (simp add: table_inv_def shortcuts_wf_def command_bindings_def tool_bindings_def)
  from table_inv_run_binds [OF this reg t] have inv: "table_inv t" .
  then have wf: "shortcuts_wf t"
    by (simp add: table_inv_def)
  have c: "\<exists>r. add_keyboard_shortcut_to_execute_command E str name ps t = Inr r \<and>
               rebound E str i t r"
    if "get_keyboard_shortcut_for_command E name ps t = Some i" "chord_fits str"
    for str name ps i
    using rebind_command [OF wf that] rebound_add_keys [of t i _ E str]
    by auto
  have tool0: "\<exists>r. add_keyboard_shortcut_to_change_tool E str tool0 t = Inr r \<and>
                   rebound E str i t r"
    if "get_keyboard_shortcut_for_tool tool0 t = Some i" "chord_fits str"
    for str tool0 i
    using rebind_tool [OF wf that, of E] rebound_add_keys [of t i _ E str]
    by auto
  have "command_shortcut_test cmd None = command_shortcut_test cmd (Some [])" for cmd
    by (simp add: fun_eq_iff command_shortcut_test_def)
  then have e: "get_keyboard_shortcut_for_command E name None t =
                get_keyboard_shortcut_for_command E name (Some []) t" for name
    by (simp add: get_keyboard_shortcut_for_command_def split: option.splits)
  from inv have d: "distinct (command_bindings t)" "distinct (tool_bindings t)"
    by (simp_all add: table_inv_def)
  from t d c tool0 e show ?thesis
    by blast
qed

subsection \<open>Instances\<close>

lemmas shortcut_defs =
  add_keyboard_shortcut_to_execute_command_def add_keyboard_shortcut_to_change_tool_def
  get_keyboard_shortcut_for_command_def get_keyboard_shortcut_for_tool_def
  get_accel_to_execute_command_def get_accel_to_change_tool_def
  command_shortcut_test_def tool_shortcut_test_def Shortcut_new_def jaccel_new_def
  add_shortcut_def usprintf_def jaccel_add_keys_from_string_def jaccel_keys_def
  sample_env_def sample_parse_def gui_start_def table_after_def Let_def

theorem bind_command_then_find_witness:
  "get_command_by_name sample_env ''new_file'' = Some 0 \<and>
   shortcuts_wf gui_start \<and>
   chord_fits ''N'' \<and>
   add_keyboard_shortcut_to_execute_command sample_env ''N'' ''new_file'' None gui_start =
     Inr (Some 0, gui_start\<lparr>shortcuts :=
        [\<lparr>accel = Some 0, type = Shortcut_ExecuteCommand, command = Some 0, tool = None,
          params = Some []\<rparr>], jaccels := [[(0, Scancode 14)]]\<rparr>) \<and>
   get_accel_to_execute_command sample_env ''new_file'' None
     (gui_start\<lparr>shortcuts :=
        [\<lparr>accel = Some 0, type = Shortcut_ExecuteCommand, command = Some 0, tool = None,
          params = Some []\<rparr>], jaccels := [[(0, Scancode 14)]]\<rparr>) = Some 0"
proof -
  have reg: "get_command_by_name sample_env ''new_file'' = Some 0"
    by (simp add: sample_env_def)
  have wf: "shortcuts_wf gui_start"
    by (simp add: shortcuts_wf_def gui_start_def)
  have fits: "chord_fits ''N''"
    by (simp add: chord_fits_def)
  have add: "add_keyboard_shortcut_to_execute_command sample_env ''N'' ''new_file'' None gui_start =
     Inr (Some 0, gui_start\<lparr>shortcuts :=
        [\<lparr>accel = Some 0, type = Shortcut_ExecuteCommand, command = Some 0, tool = None,
          params = Some []\<rparr>], jaccels := [[(0, Scancode 14)]]\<rparr>)"
    by (simp add: shortcut_defs)
  from bind_command_then_find [OF reg wf fits, of None] reg wf fits add show ?thesis
    by auto
qed

text \<open>
  A name that the registry does not know: the call creates a binding and returns its
  accelerator, and the lookup that follows returns null.
\<close>

theorem bind_unregistered_command_counterexample:
  "add_keyboard_shortcut_to_execute_command sample_env ''N'' ''no_such_command'' None gui_start =
     Inr (Some 0, gui_start\<lparr>shortcuts :=
        [\<lparr>accel = Some 0, type = Shortcut_ExecuteCommand, command = None, tool = None,
          params = Some []\<rparr>], jaccels := [[(0, Scancode 14)]]\<rparr>) \<and>
   get_accel_to_execute_command sample_env ''no_such_command'' None
     (gui_start\<lparr>shortcuts :=
        [\<lparr>accel = Some 0, type = Shortcut_ExecuteCommand, command = None, tool = None,
          params = Some []\<rparr>], jaccels := [[(0, Scancode 14)]]\<rparr>) = None"
  by (simp add: shortcut_defs)

theorem shortcut_table_one_binding_per_key_witness:
  "shortcuts gui_start = [] \<and>
   bind_registered sample_env (Bind_command ''N'' ''new_file'' None) \<and>
   bind_registered sample_env (Bind_tool ''M'' (Some 0)) \<and>
   bind_registered sample_env (Bind_command ''Ctrl+N'' ''new_file'' None) \<and>
   bind_fits (Bind_command ''N'' ''new_file'' None) \<and>
   bind_fits (Bind_tool ''M'' (Some 0)) \<and>
   bind_fits (Bind_command ''Ctrl+N'' ''new_file'' None) \<and>
   map_sum id (\<lambda>t. length (shortcuts t)) (run_binds sample_env
     [Bind_command ''N'' ''new_file'' None, Bind_tool ''M'' (Some 0),
      Bind_command ''Ctrl+N'' ''new_file'' None] gui_start) = Inr 2 \<and>
   map_sum id (\<lambda>t. distinct (command_bindings t)) (run_binds sample_env
     [Bind_command ''N'' ''new_file'' None, Bind_tool ''M'' (Some 0),
      Bind_command ''Ctrl+N'' ''new_file'' None] gui_start) = Inr True \<and>
   map_sum id (\<lambda>t. distinct (tool_bindings t)) (run_binds sample_env
     [Bind_command ''N'' ''new_file'' None, Bind_tool ''M'' (Some 0),
      Bind_command ''Ctrl+N'' ''new_file'' None] gui_start) = Inr True"
proof -
  let ?bs = "[Bind_command ''N'' ''new_file'' None, Bind_tool ''M'' (Some 0),
              Bind_command ''Ctrl+N'' ''new_file'' None]"
  have e: "shortcuts gui_start = []"
    by (simp add: gui_start_def)
  have r: "\<forall>b\<in>set ?bs. bind_registered sample_env b"
    by (simp add: sample_env_def)
  have f: "\<forall>b\<in>set ?bs. bind_fits b"
    by (simp add: chord_fits_def)
  have n: "map_sum id (\<lambda>t. length (shortcuts t)) (run_binds sample_env ?bs gui_start) = Inr 2"
    by (simp add: shortcut_defs)
  from shortcut_table_one_binding_per_key [OF e r f] obtain t
    where t: "run_binds sample_env ?bs gui_start = Inr t"
      and d: "distinct (command_bindings t)" "distinct (tool_bindings t)"
    by blast
  from e r f n t d show ?thesis
    by simp
qed

text \<open>
  Binding two chords to a name that the registry does not know creates two bindings with
  the same (null) command and the same parameters.
\<close>

theorem rebind_unregistered_command_counterexample:
  "map_sum id (\<lambda>t. length (shortcuts t)) (run_binds sample_env
      [Bind_command ''N'' ''no_such_command'' None] gui_start) = Inr 1 \<and>
   map_sum id (\<lambda>t. length (shortcuts t)) (run_binds sample_env
      [Bind_command ''N'' ''no_such_command'' None,
       Bind_command ''M'' ''no_such_command'' None] gui_start) = Inr 2 \<and>
   map_sum id command_bindings (run_binds sample_env
      [Bind_command ''N'' ''no_such_command'' None,
       Bind_command ''M'' ''no_such_command'' None] gui_start) = Inr [(None, []), (None, [])]"
  by (simp add: shortcut_defs command_bindings_def)

text \<open>
  A chord of 254 bytes does not fit the array: the call is the fault of the overflow, on
  every table and for every command.
\<close>

lemma long_chord_overflows:
  "add_keyboard_shortcut_to_execute_command E (replicate 254 CHR ''a'') name ps s =
     Inl Buffer_overflow"
  by (simp add: add_command_Inl chord_fits_def)


section \<open>Properties of the key-press dispatch\<close>

lemma collect_group_error:
  "collect_group s msg ts = Inl e \<Longrightarrow> e = Null_dereference"
  by (induction ts arbitrary: e) (auto split: option.splits sum.splits)

lemma collect_group_Inl_iff:
  "(\<exists>e. collect_group s msg ts = Inl e) \<longleftrightarrow>
   (\<exists>t\<in>set ts. get_keyboard_shortcut_for_tool (Some t) s = None)"
  by (induction ts) (auto split: option.splits sum.splits)

lemma collect_group_Inr:
  "\<forall>t\<in>set ts. get_keyboard_shortcut_for_tool (Some t) s \<noteq> None \<Longrightarrow>
   collect_group s msg ts = Inr (filter (binding_pressed s msg) ts)"
  by (induction ts) (auto simp: binding_pressed_def split: option.splits)

lemma change_tool_Inl_iff:
  "change_tool E msg shortcut s = Inl Null_dereference \<longleftrightarrow>
   (\<exists>t\<in>set (tools_list E). get_keyboard_shortcut_for_tool (Some t) s = None)"
proof -
  have "change_tool E msg shortcut s = Inl Null_dereference \<longleftrightarrow>
        (\<exists>e. collect_group s msg (tools_list E) = Inl e)"
    by (auto simp: change_tool_def Let_def split: sum.splits dest: collect_group_error)
  then show ?thesis
    by (simp add: collect_group_Inl_iff)
qed

lemma change_tool_Inr_iff:
  "(\<exists>s'. change_tool E msg shortcut s = Inr s') \<longleftrightarrow>
   (\<forall>t\<in>set (tools_list E). get_keyboard_shortcut_for_tool (Some t) s \<noteq> None)"
proof -
  have "(\<exists>s'. change_tool E msg shortcut s = Inr s') \<longleftrightarrow>
        \<not> (\<exists>e. collect_group s msg (tools_list E) = Inl e)"
    by (cases "collect_group s msg (tools_list E)") (auto simp: change_tool_def Let_def)
  then show ?thesis
    by (simp add: collect_group_Inl_iff)
qed

text \<open>
  Claim C6. When the first binding that matches a key press changes the tool, the handler
  looks up the binding of every entry of \<open>tools_list\<close> and calls through the result
  without a test. The dispatch ends in a call through a null pointer exactly when some
  tool of \<open>tools_list\<close> has no binding, and it returns (with \<open>false\<close>) exactly when
  every tool has one. The lookup returns null for a tool exactly when the table holds no
  tool binding for it.
\<close>

theorem change_tool_needs_every_tool_bound:
  assumes "first_index (\<lambda>sh. is_key_pressed s sh msg) (shortcuts s) = Some i"
      and "type (shortcuts s ! i) = Shortcut_ChangeTool"
  shows "(key_pressed E msg s = Inl Null_dereference \<longleftrightarrow>
            (\<exists>t\<in>set (tools_list E). get_keyboard_shortcut_for_tool (Some t) s = None)) \<and>
         ((\<exists>s'. key_pressed E msg s = Inr (False, s')) \<longleftrightarrow>
            (\<forall>t\<in>set (tools_list E). get_keyboard_shortcut_for_tool (Some t) s \<noteq> None)) \<and>
         (\<forall>t. get_keyboard_shortcut_for_tool (Some t) s = None \<longleftrightarrow>
              Some t \<notin> set (tool_bindings s))"
proof -
  let ?sh = "shortcuts s ! i"
  have kp: "key_pressed E msg s =
            (case change_tool E msg ?sh s of Inl e \<Rightarrow> Inl e | Inr s' \<Rightarrow> Inr (False, s'))"
    using assms by (simp add: key_pressed_def Let_def)
  have a: "key_pressed E msg s = Inl Null_dereference \<longleftrightarrow>
           change_tool E msg ?sh s = Inl Null_dereference"
    by (simp add: kp split: sum.splits)
  have b: "(\<exists>s'. key_pressed E msg s = Inr (False, s')) \<longleftrightarrow>
           (\<exists>s'. change_tool E msg ?sh s = Inr s')"
    by (simp add: kp split: sum.splits)
  have c: "get_keyboard_shortcut_for_tool (Some t) s = None \<longleftrightarrow>
           Some t \<notin> set (tool_bindings s)" for t
    by (force simp: get_keyboard_shortcut_for_tool_def first_index_None tool_shortcut_test_def
        tool_bindings_def image_iff)
  from a b c show ?thesis
    by (simp only: change_tool_Inl_iff change_tool_Inr_iff) simp
qed

lemma cycle_loop_Some:
  "cycle_loop g cur i = Some t \<Longrightarrow>
   \<exists>k\<ge>i. k + 1 < length g \<and> Some (g ! k) = cur \<and> t = g ! (k + 1)"
proof (induction g cur i rule: cycle_loop.induct)
  case (1 g cur i)
  show ?case
  proof (cases "i < length g \<and> \<not> (Some (g ! i) = cur \<and> i + 1 < length g)")
    case True
    with "1.prems" have "cycle_loop g cur (i + 1) = Some t"
      by (subst (asm) cycle_loop.simps) (simp split: if_splits)
    from "1.IH" [OF _ _ this] True obtain k
      where "k \<ge> i + 1" "k + 1 < length g" "Some (g ! k) = cur" "t = g ! (k + 1)"
      by blast
    then show ?thesis
      by (intro exI [of _ k]) simp
  next
    case False
    with "1.prems" have "i + 1 < length g \<and> Some (g ! i) = cur \<and> t = g ! (i + 1)"
      by (subst (asm) cycle_loop.simps) (auto split: if_splits)
    then show ?thesis
      by (intro exI [of _ i]) simp
  qed
qed

lemma cycle_loop_None:
  "cycle_loop g cur i = None \<Longrightarrow> i \<le> k \<Longrightarrow> k + 1 < length g \<Longrightarrow> Some (g ! k) \<noteq> cur"
proof (induction g cur i rule: cycle_loop.induct)
  case (1 g cur i)
  from "1.prems" have i: "i < length g" by simp
  from "1.prems"(1) i have no: "\<not> (Some (g ! i) = cur \<and> i + 1 < length g)"
    and rest: "cycle_loop g cur (i + 1) = None"
    by (subst (asm) cycle_loop.simps; simp split: if_splits)+
  show ?case
  proof (cases "k = i")
    case True
    with no "1.prems" show ?thesis by simp
  next
    case False
    with "1.prems" have "i + 1 \<le> k" by simp
    from "1.IH" [OF i no rest this "1.prems"(3)] show ?thesis .
  qed
qed

lemma first_index_le:
  "i < length xs \<Longrightarrow> P (xs ! i) \<Longrightarrow> \<exists>j\<le>i. first_index P xs = Some j"
proof (induction xs arbitrary: i)
  case Nil
  then show ?case by simp
next
  case (Cons x xs)
  show ?case
  proof (cases "P x")
    case True
    then show ?thesis by simp
  next
    case False
    with Cons.prems obtain k where k: "i = Suc k" "k < length xs" "P (xs ! k)"
      by (cases i) auto
    from Cons.IH [OF k(2,3)] obtain j where "j \<le> k" "first_index P xs = Some j"
      by blast
    with False k(1) show ?thesis by simp
  qed
qed

lemma first_index_SomeD:
  "first_index P xs = Some i \<Longrightarrow> i < length xs \<and> P (xs ! i)"
proof (induction xs arbitrary: i)
  case Nil
  then show ?case by simp
next
  case (Cons x xs)
  then show ?case
    by (cases "P x") (auto simp: nth_Cons split: nat.splits)
qed

lemma distinct_map_filter_nth:
  "distinct (map f (filter C xs)) \<Longrightarrow> i < length xs \<Longrightarrow> j < length xs \<Longrightarrow>
   C (xs ! i) \<Longrightarrow> C (xs ! j) \<Longrightarrow> f (xs ! i) = f (xs ! j) \<Longrightarrow> i = j"
proof (induction xs arbitrary: i j)
  case Nil
  then show ?case by simp
next
  case (Cons x xs)
  show ?case
  proof (cases i)
    case 0
    show ?thesis
    proof (cases j)
      case 0
      with \<open>i = 0\<close> show ?thesis by simp
    next
      case (Suc j')
      with Cons.prems 0 have "C x" "C (xs ! j')" "f x = f (xs ! j')" "j' < length xs"
        by simp_all
      then have "xs ! j' \<in> set (filter C xs)" "f x = f (xs ! j')"
        by simp_all
      then have "f x \<in> f ` set (filter C xs)"
        by (metis imageI)
      with Cons.prems(1) \<open>C x\<close> show ?thesis by simp
    qed
  next
    case (Suc i')
    show ?thesis
    proof (cases j)
      case 0
      with Cons.prems Suc have "C x" "C (xs ! i')" "f x = f (xs ! i')" "i' < length xs"
        by simp_all
      then have "xs ! i' \<in> set (filter C xs)" "f x = f (xs ! i')"
        by simp_all
      then have "f x \<in> f ` set (filter C xs)"
        by (metis imageI)
      with Cons.prems(1) \<open>C x\<close> show ?thesis by simp
    next
      case (Suc j')
      from Cons.prems(1) have d: "distinct (map f (filter C xs))"
        by (simp split: if_splits)
      from Cons.IH [OF d, of i' j'] Cons.prems \<open>i = Suc i'\<close> Suc show ?thesis
        by simp
    qed
  qed
qed

lemma own_binding_found:
  assumes d: "distinct (tool_bindings s)"
      and i: "i < length (shortcuts s)"
      and ty: "type (shortcuts s ! i) = Shortcut_ChangeTool"
  shows "get_keyboard_shortcut_for_tool (tool (shortcuts s ! i)) s = Some i"
proof -
  let ?P = "tool_shortcut_test (tool (shortcuts s ! i))"
  from ty have "?P (shortcuts s ! i)"
    by (simp add: tool_shortcut_test_def)
  from first_index_le [OF i, of ?P, OF this] obtain j
    where j: "j \<le> i" "first_index ?P (shortcuts s) = Some j"
    by blast
  from first_index_SomeD [OF j(2)] have "?P (shortcuts s ! j)" "j < length (shortcuts s)"
    by simp_all
  with d i ty have "j = i"
    unfolding tool_bindings_def tool_shortcut_test_def
    by (intro distinct_map_filter_nth
          [of tool "\<lambda>sh. type sh = Shortcut_ChangeTool" "shortcuts s" j i]) simp_all
  with j(2) show ?thesis
    by (simp add: get_keyboard_shortcut_for_tool_def)
qed

lemma pressed_at_Cons:
  "pressed_at Q T (a # xs) = (if T a then Q a else pressed_at Q T xs)"
  by (simp add: pressed_at_def split: option.splits)

lemma first_pressed_binding:
  assumes "distinct (map f (filter C xs))"
      and "first_index Q xs = Some i"
      and "C (xs ! i)"
  shows "find (\<lambda>v. pressed_at Q (\<lambda>sh. C sh \<and> f sh = v) xs) (map f (filter C xs)) =
           Some (f (xs ! i))"
  using assms
proof (induction xs arbitrary: i)
  case Nil
  then show ?case by simp
next
  case (Cons a xs)
  show ?case
  proof (cases "Q a")
    case True
    with Cons.prems have "i = 0" "C a" by simp_all
    with True show ?thesis
      by (simp add: pressed_at_Cons)
  next
    case False
    with Cons.prems obtain k where k: "i = Suc k" "first_index Q xs = Some k" "C (xs ! k)"
      by auto
    from Cons.prems(1) have d: "distinct (map f (filter C xs))"
      by (simp split: if_splits)
    have same: "find (\<lambda>v. pressed_at Q (\<lambda>sh. C sh \<and> f sh = v) (a # xs)) (map f (filter C xs)) =
                find (\<lambda>v. pressed_at Q (\<lambda>sh. C sh \<and> f sh = v) xs) (map f (filter C xs))"
    proof (rule find_cong [OF refl])
      fix v assume v: "v \<in> set (map f (filter C xs))"
      show "pressed_at Q (\<lambda>sh. C sh \<and> f sh = v) (a # xs) =
            pressed_at Q (\<lambda>sh. C sh \<and> f sh = v) xs"
      proof (cases "C a")
        case True
        with Cons.prems(1) v have "f a \<noteq> v" by auto
        then show ?thesis by (simp add: pressed_at_Cons)
      next
        case False
        then show ?thesis by (simp add: pressed_at_Cons)
      qed
    qed
    have head: "\<not> pressed_at Q (\<lambda>sh. C sh \<and> f sh = f a) (a # xs)" if "C a"
      using that False by (simp add: pressed_at_Cons)
    have "find (\<lambda>v. pressed_at Q (\<lambda>sh. C sh \<and> f sh = v) (a # xs)) (map f (filter C (a # xs))) =
          find (\<lambda>v. pressed_at Q (\<lambda>sh. C sh \<and> f sh = v) (a # xs)) (map f (filter C xs))"
      using head by (cases "C a") simp_all
    also note same
    also note Cons.IH [OF d k(2,3)]
    finally show ?thesis
      by (simp add: k(1))
  qed
qed

lemma find_Some_filter:
  "find P xs = Some x \<Longrightarrow> filter P xs \<noteq> [] \<and> filter P xs ! 0 = x"
  by (induction xs) (auto split: if_splits)

lemma find_map: "find P (map g xs) = map_option g (find (\<lambda>x. P (g x)) xs)"
  by (induction xs) auto

lemma bindings_in_order_first:
  assumes order: "tool_bindings s = map Some (tools_list E)"
      and dist: "distinct (tools_list E)"
      and first: "first_index (\<lambda>sh. is_key_pressed s sh msg) (shortcuts s) = Some i"
      and ty: "type (shortcuts s ! i) = Shortcut_ChangeTool"
  shows "matching_tools E s msg \<noteq> [] \<and>
         tool (shortcuts s ! i) = Some (matching_tools E s msg ! 0)"
proof -
  let ?C = "\<lambda>sh. type sh = Shortcut_ChangeTool"
  let ?Q = "\<lambda>sh. is_key_pressed s sh msg"
  have bp: "binding_pressed s msg t = pressed_at ?Q (\<lambda>sh. ?C sh \<and> tool sh = Some t) (shortcuts s)"
    for t
  proof -
    have "tool_shortcut_test (Some t) = (\<lambda>sh. ?C sh \<and> tool sh = Some t)"
      by (simp add: fun_eq_iff tool_shortcut_test_def)
    then show ?thesis
      by (simp add: binding_pressed_def pressed_at_def get_keyboard_shortcut_for_tool_def)
  qed
  from order dist have d: "distinct (map tool (filter ?C (shortcuts s)))"
    by (simp add: tool_bindings_def distinct_map)
  from first_pressed_binding [OF d first ty]
  have "find (\<lambda>v. pressed_at ?Q (\<lambda>sh. ?C sh \<and> tool sh = v) (shortcuts s))
          (map Some (tools_list E)) = Some (tool (shortcuts s ! i))"
    using order by (simp add: tool_bindings_def)
  moreover have "(\<lambda>x. pressed_at ?Q (\<lambda>sh. ?C sh \<and> tool sh = Some x) (shortcuts s)) =
                 binding_pressed s msg"
    by (simp add: fun_eq_iff bp)
  ultimately have "map_option Some (find (binding_pressed s msg) (tools_list E)) =
               Some (tool (shortcuts s ! i))"
    by (simp add: find_map)
  then obtain x where x1: "find (binding_pressed s msg) (tools_list E) = Some x"
    and x2: "Some x = tool (shortcuts s ! i)"
    by auto
  from find_Some_filter [OF x1] x2 [symmetric] show ?thesis
    by (simp add: matching_tools_def)
qed

text \<open>
  Claim C1, as amended. Let the first binding that matches a key press be a tool binding,
  let every tool of \<open>tools_list\<close> have a binding, let \<open>tools_list\<close> have no repetition and
  the table at most one binding per tool, and let \<open>G\<close> be the tools, in the order of
  \<open>tools_list\<close>, whose own binding matches the message. Then the handler selects one tool
  and returns \<open>false\<close>. When the active tool is at position \<open>k\<close> of \<open>G\<close> and \<open>k + 1\<close> is
  a position of \<open>G\<close>, the tool selected is \<open>G ! (k + 1)\<close>. Otherwise (the active tool is
  last in \<open>G\<close> or not in \<open>G\<close>) it is the tool of the first matching binding of the table.
  When that tool is in \<open>tools_list\<close> it is a member of \<open>G\<close>, and the only one when \<open>G\<close> has
  one member. It is the first member of \<open>G\<close> when the tool bindings stand in the table in
  the order of \<open>tools_list\<close>.
\<close>

theorem change_tool_cycles_through_group:
  assumes first: "first_index (\<lambda>sh. is_key_pressed s sh msg) (shortcuts s) = Some i"
      and ty: "type (shortcuts s ! i) = Shortcut_ChangeTool"
      and bound: "all_tools_bound E s"
      and dist: "distinct (tools_list E)"
      and uniq: "distinct (tool_bindings s)"
      and G: "G = matching_tools E s msg"
  shows "\<exists>t. key_pressed E msg s = Inr (False, select_tool t s) \<and>
           (\<forall>k. k + 1 < length G \<and> Some (G ! k) = current_tool s \<longrightarrow> t = Some (G ! (k + 1))) \<and>
           ((\<forall>k. k + 1 < length G \<longrightarrow> Some (G ! k) \<noteq> current_tool s) \<longrightarrow>
              t = tool (shortcuts s ! i)) \<and>
           (\<forall>x\<in>set (tools_list E). tool (shortcuts s ! i) = Some x \<longrightarrow>
              x \<in> set G \<and> (length G = 1 \<longrightarrow> G = [x] \<and> t = Some x)) \<and>
           (tool_bindings s = map Some (tools_list E) \<longrightarrow>
              G \<noteq> [] \<and> tool (shortcuts s ! i) = Some (G ! 0))"
proof -
  let ?sh = "shortcuts s ! i"
  from bound have all: "\<forall>t\<in>set (tools_list E). get_keyboard_shortcut_for_tool (Some t) s \<noteq> None"
    by (simp add: all_tools_bound_def list_all_iff)
  have grp: "collect_group s msg (tools_list E) = Inr G"
    by (simp add: collect_group_Inr [OF all] G matching_tools_def)
  from dist have dG: "distinct G"
    by (simp add: G matching_tools_def)
  define t where "t = (if 2 \<le> length G
                       then (case cycle_loop G (current_tool s) 0 of
                               Some u \<Rightarrow> Some u | None \<Rightarrow> tool ?sh)
                       else tool ?sh)"
  have kp: "key_pressed E msg s = Inr (False, select_tool t s)"
    using first ty by (simp add: key_pressed_def change_tool_def grp Let_def t_def)
  have adv: "t = Some (G ! (k + 1))"
    if k: "k + 1 < length G" "Some (G ! k) = current_tool s" for k
  proof (cases "cycle_loop G (current_tool s) 0")
    case None
    from cycle_loop_None [OF None _ k(1)] k(2) show ?thesis by simp
  next
    case (Some u)
    from cycle_loop_Some [OF Some] obtain k'
      where k': "k' + 1 < length G" "Some (G ! k') = current_tool s" "u = G ! (k' + 1)"
      by blast
    with k have "Some (G ! k') = Some (G ! k)" by simp
    then have "G ! k' = G ! k" by simp
    with dG k k' have "k' = k"
      by (simp add: nth_eq_iff_index_eq)
    with k' k Some show ?thesis
      by (simp add: t_def)
  qed
  have fall: "t = tool ?sh" if no: "\<forall>k. k + 1 < length G \<longrightarrow> Some (G ! k) \<noteq> current_tool s"
  proof (cases "cycle_loop G (current_tool s) 0")
    case None
    then show ?thesis by (simp add: t_def)
  next
    case (Some u)
    from cycle_loop_Some [OF Some] no show ?thesis by blast
  qed
  have mem: "x \<in> set G \<and> (length G = 1 \<longrightarrow> G = [x] \<and> t = Some x)"
    if x: "x \<in> set (tools_list E)" "tool ?sh = Some x" for x
  proof -
    from first_index_SomeD [OF first] have i: "i < length (shortcuts s)"
      and pressed: "is_key_pressed s ?sh msg"
      by simp_all
    from own_binding_found [OF uniq i ty] x(2)
    have "get_keyboard_shortcut_for_tool (Some x) s = Some i" by simp
    with pressed have "binding_pressed s msg x"
      by (simp add: binding_pressed_def)
    with x(1) have xG: "x \<in> set G"
      by (simp add: G matching_tools_def)
    have "G = [x] \<and> t = Some x" if "length G = 1"
    proof -
      from that xG have "G = [x]"
        by (cases G) auto
      with x(2) show ?thesis by (simp add: t_def)
    qed
    with xG show ?thesis by blast
  qed
  have ord: "G \<noteq> [] \<and> tool ?sh = Some (G ! 0)"
    if "tool_bindings s = map Some (tools_list E)"
    using bindings_in_order_first [OF that dist first ty] by (simp add: G)
  from kp adv fall mem ord show ?thesis by blast
qed

lemma main_window_reached_iff:
  "main_window_reached E cs \<longleftrightarrow>
   (\<exists>k<length cs. jwindow_is_desktop E (cs ! k) \<and> Some (cs ! k) = app_get_top_window E \<and>
      (\<forall>j\<le>k. \<not> jwindow_is_foreground E (cs ! j)))"
proof (induction cs)
  case Nil
  then show ?case by simp
next
  case (Cons c cs)
  let ?ok = "\<lambda>xs k. jwindow_is_desktop E (xs ! k) \<and> Some (xs ! k) = app_get_top_window E \<and>
                (\<forall>j\<le>k. \<not> jwindow_is_foreground E (xs ! j))"
  show ?case
  proof (cases "jwindow_is_foreground E c")
    case True
    then have "\<not> ?ok (c # cs) k" for k
      by (auto intro: exI [of _ 0])
    with True show ?thesis by simp
  next
    case nf: False
    show ?thesis
    proof (cases "jwindow_is_desktop E c \<and> Some c = app_get_top_window E")
      case True
      with nf have "?ok (c # cs) 0" by simp
      then have "\<exists>k<length (c # cs). ?ok (c # cs) k"
        by (intro exI [of _ 0]) simp
      with nf True show ?thesis by simp
    next
      case False
      have below: "(\<forall>j\<le>Suc k. \<not> jwindow_is_foreground E ((c # cs) ! j)) \<longleftrightarrow>
                   (\<forall>j\<le>k. \<not> jwindow_is_foreground E (cs ! j))" for k
      proof
        assume l: "\<forall>j\<le>Suc k. \<not> jwindow_is_foreground E ((c # cs) ! j)"
        show "\<forall>j\<le>k. \<not> jwindow_is_foreground E (cs ! j)"
        proof (intro allI impI)
          fix j assume "j \<le> k"
          with l [rule_format, of "Suc j"] show "\<not> jwindow_is_foreground E (cs ! j)"
            by simp
        qed
      next
        assume r: "\<forall>j\<le>k. \<not> jwindow_is_foreground E (cs ! j)"
        show "\<forall>j\<le>Suc k. \<not> jwindow_is_foreground E ((c # cs) ! j)"
        proof (intro allI impI)
          fix j assume "j \<le> Suc k"
          with r nf show "\<not> jwindow_is_foreground E ((c # cs) ! j)"
            by (cases j) simp_all
        qed
      qed
      have r: "main_window_reached E (c # cs) = main_window_reached E cs"
        using nf False by auto
      have eq: "(\<exists>k<length (c # cs). ?ok (c # cs) k) \<longleftrightarrow> (\<exists>k<length cs. ?ok cs k)"
      proof
        assume "\<exists>k<length (c # cs). ?ok (c # cs) k"
        then obtain k where k: "k < length (c # cs)" "?ok (c # cs) k" by blast
        with False obtain k' where "k = Suc k'" by (cases k) auto
        with k below [of k'] show "\<exists>k<length cs. ?ok cs k"
          by (intro exI [of _ k']) simp
      next
        assume "\<exists>k<length cs. ?ok cs k"
        then obtain k where k: "k < length cs" "?ok cs k" by blast
        with below [of k] show "\<exists>k<length (c # cs). ?ok (c # cs) k"
          by (intro exI [of _ "Suc k"]) simp
      qed
      show ?thesis
        by (simp only: r Cons.IH eq)
    qed
  qed
qed

text \<open>
  Claim C3, as amended. Let the first binding that matches a key press execute a command
  \<open>c\<close>. When \<open>c\<close> is the screen-shot command, it is executed and the handler returns
  \<open>true\<close>. Otherwise it is executed, and \<open>true\<close> returned, exactly when some child of the
  manager is the desktop window and the application's top window and no foreground window
  is at or before it in the manager's list of children. In every other case nothing is
  executed, the state is unchanged and the handler returns \<open>false\<close>.
\<close>

theorem execute_command_focus_gated:
  assumes first: "first_index (\<lambda>sh. is_key_pressed s sh msg) (shortcuts s) = Some i"
      and ty: "type (shortcuts s ! i) = Shortcut_ExecuteCommand"
      and cmd: "command (shortcuts s ! i) = Some c"
  shows "key_pressed E msg s =
           (if short_name E c = screen_shot E \<or> main_window_unobstructed E
            then Inr (True, execute_command c (params (shortcuts s ! i)) s)
            else Inr (False, s))"
proof -
  have "main_window_reached E (children E) = main_window_unobstructed E"
    unfolding main_window_unobstructed_def by (rule main_window_reached_iff)
  with assms show ?thesis
    by (simp add: key_pressed_def execute_shortcut_def Let_def)
qed

lemmas dispatch_defs =
  key_pressed_def change_tool_def execute_shortcut_def is_key_pressed_def jaccel_check_def
  keycombo_matches_def key_N_def binding_pressed_def matching_tools_def all_tools_bound_def
  tool_bindings_def

lemma tools_bound_in_order_eq:
  "tools_bound_in_order =
     gui_start\<lparr>shortcuts :=
        [\<lparr>accel = Some 0, type = Shortcut_ChangeTool, command = None, tool = Some 0,
          params = None\<rparr>,
         \<lparr>accel = Some 1, type = Shortcut_ChangeTool, command = None, tool = Some 1,
          params = None\<rparr>],
        jaccels := [[(0, Scancode 14)], [(0, Scancode 14)]],
        current_tool := Some 0\<rparr>"
  by (simp add: tools_bound_in_order_def shortcut_defs)

lemma tools_bound_in_reverse_eq:
  "tools_bound_in_reverse =
     gui_start\<lparr>shortcuts :=
        [\<lparr>accel = Some 0, type = Shortcut_ChangeTool, command = None, tool = Some 1,
          params = None\<rparr>,
         \<lparr>accel = Some 1, type = Shortcut_ChangeTool, command = None, tool = Some 0,
          params = None\<rparr>],
        jaccels := [[(0, Scancode 14)], [(0, Scancode 14)]],
        current_tool := Some 1\<rparr>"
  by (simp add: tools_bound_in_reverse_def shortcut_defs)

lemma one_tool_bound_eq:
  "one_tool_bound =
     gui_start\<lparr>shortcuts :=
        [\<lparr>accel = Some 0, type = Shortcut_ChangeTool, command = None, tool = Some 0,
          params = None\<rparr>],
        jaccels := [[(0, Scancode 14)]]\<rparr>"
  by (simp add: one_tool_bound_def shortcut_defs)

lemma command_bound_eq:
  "command_bound =
     gui_start\<lparr>shortcuts :=
        [\<lparr>accel = Some 0, type = Shortcut_ExecuteCommand, command = Some 0, tool = None,
          params = Some []\<rparr>],
        jaccels := [[(0, Scancode 14)]]\<rparr>"
  by (simp add: command_bound_def shortcut_defs)

text \<open>
  Two tools bound to the same key in the reverse order of \<open>tools_list\<close>, the active tool
  last in the group: the tool selected is the one of the first binding, which is the last
  of the group.
\<close>

theorem change_tool_first_binding_counterexample:
  "matching_tools sample_env tools_bound_in_reverse key_N = [0, 1] \<and>
   current_tool tools_bound_in_reverse = Some 1 \<and>
   key_pressed sample_env key_N tools_bound_in_reverse =
     Inr (False, select_tool (Some 1) tools_bound_in_reverse) \<and>
   Some 1 \<noteq> Some (matching_tools sample_env tools_bound_in_reverse key_N ! 0)"
  by (simp add: tools_bound_in_reverse_eq dispatch_defs shortcut_defs cycle_loop.simps)

theorem change_tool_cycles_through_group_witness:
  "first_index (\<lambda>sh. is_key_pressed tools_bound_in_order sh key_N)
     (shortcuts tools_bound_in_order) = Some 0 \<and>
   type (shortcuts tools_bound_in_order ! 0) = Shortcut_ChangeTool \<and>
   all_tools_bound sample_env tools_bound_in_order \<and>
   distinct (tools_list sample_env) \<and>
   distinct (tool_bindings tools_bound_in_order) \<and>
   matching_tools sample_env tools_bound_in_order key_N = [0, 1] \<and>
   current_tool tools_bound_in_order = Some 0 \<and>
   key_pressed sample_env key_N tools_bound_in_order =
     Inr (False, select_tool (Some 1) tools_bound_in_order)"
proof -
  let ?s = tools_bound_in_order
  have first: "first_index (\<lambda>sh. is_key_pressed ?s sh key_N) (shortcuts ?s) = Some 0"
    by (simp add: tools_bound_in_order_eq dispatch_defs shortcut_defs)
  have ty: "type (shortcuts ?s ! 0) = Shortcut_ChangeTool"
    by (simp add: tools_bound_in_order_eq shortcut_defs)
  have bound: "all_tools_bound sample_env ?s"
    by (simp add: tools_bound_in_order_eq dispatch_defs shortcut_defs)
  have dist: "distinct (tools_list sample_env)"
    by (simp add: sample_env_def)
  have uniq: "distinct (tool_bindings ?s)"
    by (simp add: tools_bound_in_order_eq dispatch_defs shortcut_defs)
  have G: "[0, 1] = matching_tools sample_env ?s key_N"
    by (simp add: tools_bound_in_order_eq dispatch_defs shortcut_defs)
  have cur: "current_tool ?s = Some 0"
    by (simp add: tools_bound_in_order_eq shortcut_defs)
  from change_tool_cycles_through_group [OF first ty bound dist uniq G] obtain t
    where kp: "key_pressed sample_env key_N ?s = Inr (False, select_tool t ?s)"
      and adv: "\<forall>k. k + 1 < length [0, 1 :: nat] \<and> Some ([0, 1] ! k) = current_tool ?s
                  \<longrightarrow> t = Some ([0, 1] ! (k + 1))"
    by blast
  from adv [rule_format, of 0] cur have "t = Some 1" by simp
  with kp first ty bound dist uniq G cur show ?thesis by simp
qed

text \<open>
  The same table with the second tool active: the active tool is last in the group, and
  the tool of the first matching binding, which here is the first of the group, is
  selected.
\<close>

lemma change_tool_fallback_in_order:
  "matching_tools sample_env (tools_bound_in_order\<lparr>current_tool := Some 1\<rparr>) key_N = [0, 1] \<and>
   key_pressed sample_env key_N (tools_bound_in_order\<lparr>current_tool := Some 1\<rparr>) =
     Inr (False, select_tool (Some 0) (tools_bound_in_order\<lparr>current_tool := Some 1\<rparr>))"
  by (simp add: tools_bound_in_order_eq dispatch_defs shortcut_defs cycle_loop.simps)

theorem change_tool_needs_every_tool_bound_witness:
  "first_index (\<lambda>sh. is_key_pressed one_tool_bound sh key_N) (shortcuts one_tool_bound) = Some 0 \<and>
   type (shortcuts one_tool_bound ! 0) = Shortcut_ChangeTool \<and>
   1 \<in> set (tools_list sample_env) \<and>
   get_keyboard_shortcut_for_tool (Some 1) one_tool_bound = None \<and>
   key_pressed sample_env key_N one_tool_bound = Inl Null_dereference"
proof -
  let ?s = one_tool_bound
  have first: "first_index (\<lambda>sh. is_key_pressed ?s sh key_N) (shortcuts ?s) = Some 0"
    by (simp add: one_tool_bound_eq dispatch_defs shortcut_defs)
  have ty: "type (shortcuts ?s ! 0) = Shortcut_ChangeTool"
    by (simp add: one_tool_bound_eq shortcut_defs)
  have mem: "1 \<in> set (tools_list sample_env)"
    by (simp add: sample_env_def)
  have none: "get_keyboard_shortcut_for_tool (Some 1) ?s = None"
    by (simp add: one_tool_bound_eq shortcut_defs)
  from change_tool_needs_every_tool_bound [OF first ty, of sample_env] mem none
  have "key_pressed sample_env key_N ?s = Inl Null_dereference"
    by blast
  with first ty mem none show ?thesis by simp
qed

theorem execute_command_focus_gated_witness:
  "first_index (\<lambda>sh. is_key_pressed command_bound sh key_N) (shortcuts command_bound) = Some 0 \<and>
   type (shortcuts command_bound ! 0) = Shortcut_ExecuteCommand \<and>
   command (shortcuts command_bound ! 0) = Some 0 \<and>
   short_name sample_env 0 \<noteq> screen_shot sample_env \<and>
   main_window_unobstructed sample_env \<and>
   key_pressed sample_env key_N command_bound =
     Inr (True, execute_command 0 (Some []) command_bound)"
proof -
  let ?s = command_bound
  have first: "first_index (\<lambda>sh. is_key_pressed ?s sh key_N) (shortcuts ?s) = Some 0"
    by (simp add: command_bound_eq dispatch_defs shortcut_defs)
  have ty: "type (shortcuts ?s ! 0) = Shortcut_ExecuteCommand"
    by (simp add: command_bound_eq shortcut_defs)
  have cmd: "command (shortcuts ?s ! 0) = Some 0"
    by (simp add: command_bound_eq shortcut_defs)
  have other: "short_name sample_env 0 \<noteq> screen_shot sample_env"
    by (simp add: sample_env_def)
  have main: "main_window_unobstructed sample_env"
    unfolding main_window_unobstructed_def
    by (intro exI [of _ 1]) (simp add: sample_env_def)
  have ps: "params (shortcuts ?s ! 0) = Some []"
    by (simp add: command_bound_eq shortcut_defs)
  from execute_command_focus_gated [OF first ty cmd, of sample_env] main ps
  have "key_pressed sample_env key_N ?s = Inr (True, execute_command 0 (Some []) ?s)"
    by simp
  with first ty cmd other main show ?thesis by simp
qed

text \<open>
  A foreground window that comes after the desktop window in the manager's list does not
  stop the command.
\<close>

theorem execute_command_foreground_behind_counterexample:
  "9 \<in> set (children dialog_behind_env) \<and>
   jwindow_is_foreground dialog_behind_env 9 \<and>
   short_name dialog_behind_env 0 \<noteq> screen_shot dialog_behind_env \<and>
   key_pressed dialog_behind_env key_N command_bound =
     Inr (True, execute_command 0 (Some []) command_bound)"
  by (simp add: command_bound_eq dialog_behind_env_def dispatch_defs shortcut_defs)



section \<open>Properties of the idle hook\<close>

lemma bit_REFRESH: "bit REFRESH_FULL_SCREEN n \<longleftrightarrow> n = 2"
  using bit_exp_iff [where ?'a = "32 word", of 2 n] by (auto simp: REFRESH_FULL_SCREEN_def)

lemma bit_REBUILD: "bit REBUILD_RECENT_LIST n \<longleftrightarrow> n = 1"
  using bit_exp_iff [where ?'a = "32 word", of 1 n] by (auto simp: REBUILD_RECENT_LIST_def)

lemma and_REFRESH: "w AND REFRESH_FULL_SCREEN = 0 \<longleftrightarrow> \<not> bit w 2"
  using and_exp_eq_0_iff_not_bit [of w 2] by (simp add: REFRESH_FULL_SCREEN_def)

lemma and_REBUILD: "w AND REBUILD_RECENT_LIST = 0 \<longleftrightarrow> \<not> bit w 1"
  using and_exp_eq_0_iff_not_bit [of w 1] by (simp add: REBUILD_RECENT_LIST_def)

lemmas flag_simps = and_REFRESH and_REBUILD bit_REFRESH bit_REBUILD bit_xor_iff bit_or_iff

lemma call_simps [simp]:
  "trace (call e s) = trace s @ [e]"
  "next_idle_flags (call e s) = next_idle_flags s"
  "double_buffering (call e s) = double_buffering s"
  by (simp_all add: call_def)

lemma update_screen_flags [simp]:
  "next_idle_flags (update_screen_for_sprite I sp s) = next_idle_flags s"
  "double_buffering (update_screen_for_sprite I sp s) = double_buffering s"
  by (simp_all add: update_screen_for_sprite_def Let_def split: option.splits)

lemma update_screen_trace:
  "\<exists>rest. trace (update_screen_for_sprite I sp s) =
            trace s @ Update_screen_for_sprite sp # rest \<and>
          refresh_passes rest = 0 \<and> rebuild_attempts rest = 0 \<and>
          (mode_gui I \<longrightarrow> Set_current_palette sp \<in> set rest)"
  by (simp add: update_screen_for_sprite_def Let_def refresh_passes_def rebuild_attempts_def
      split: option.splits)

lemma gui_feedback_steps:
  "gui_feedback I s = flush_step I (refresh_step I (rebuild_step I s))"
  by (simp add: gui_feedback_def rebuild_step_def refresh_step_def flush_step_def Let_def)

lemma flush_step_facts:
  "next_idle_flags (flush_step I s) = next_idle_flags s"
  "\<exists>rest. trace (flush_step I s) = trace s @ rest \<and> refresh_passes rest = 0 \<and>
          rebuild_attempts rest = 0"
  by (simp_all add: flush_step_def Let_def refresh_passes_def rebuild_attempts_def)

lemma rebuild_step_facts:
  "bit (next_idle_flags (rebuild_step I s)) n \<longleftrightarrow>
     bit (next_idle_flags s) n \<and> \<not> (n = 1 \<and> app_realloc_recent_list I)"
  "\<exists>rest. trace (rebuild_step I s) = trace s @ rest \<and> refresh_passes rest = 0 \<and>
          rebuild_attempts rest = (if bit (next_idle_flags s) 1 then 1 else 0)"
  by (auto simp: rebuild_step_def Let_def flag_simps refresh_passes_def rebuild_attempts_def)

lemma refresh_step_facts:
  "bit (next_idle_flags (refresh_step I s)) n \<longleftrightarrow> bit (next_idle_flags s) n \<and> n \<noteq> 2"
  "\<exists>rest. trace (refresh_step I s) = trace s @ rest \<and> rebuild_attempts rest = 0 \<and>
          refresh_passes rest = (if bit (next_idle_flags s) 2 then 1 else 0) \<and>
          (bit (next_idle_flags s) 2 \<longrightarrow>
             Update_screen_for_sprite (current_sprite I) \<in> set rest \<and>
             (mode_gui I \<longrightarrow> Set_current_palette (current_sprite I) \<in> set rest))"
proof -
  show "bit (next_idle_flags (refresh_step I s)) n \<longleftrightarrow> bit (next_idle_flags s) n \<and> n \<noteq> 2"
    by (auto simp: refresh_step_def flag_simps)
  show "\<exists>rest. trace (refresh_step I s) = trace s @ rest \<and> rebuild_attempts rest = 0 \<and>
          refresh_passes rest = (if bit (next_idle_flags s) 2 then 1 else 0) \<and>
          (bit (next_idle_flags s) 2 \<longrightarrow>
             Update_screen_for_sprite (current_sprite I) \<in> set rest \<and>
             (mode_gui I \<longrightarrow> Set_current_palette (current_sprite I) \<in> set rest))"
  proof (cases "bit (next_idle_flags s) 2")
    case True
    let ?s = "s\<lparr>next_idle_flags := next_idle_flags s XOR REFRESH_FULL_SCREEN\<rparr>"
    from update_screen_trace [of I "current_sprite I" ?s] obtain rest
      where "trace (update_screen_for_sprite I (current_sprite I) ?s) =
               trace s @ Update_screen_for_sprite (current_sprite I) # rest"
        "refresh_passes rest = 0" "rebuild_attempts rest = 0"
        "mode_gui I \<longrightarrow> Set_current_palette (current_sprite I) \<in> set rest"
      by auto
    with True show ?thesis
      by (intro exI [of _ "Update_screen_for_sprite (current_sprite I) # rest"])
         (simp add: refresh_step_def flag_simps refresh_passes_def rebuild_attempts_def)
  next
    case False
    then show ?thesis
      by (simp add: refresh_step_def flag_simps refresh_passes_def rebuild_attempts_def)
  qed
qed

lemma gui_feedback_facts:
  "\<exists>r1 r2 r3.
     trace (gui_feedback I s) = trace s @ r1 @ r2 @ r3 \<and>
     refresh_passes r1 = 0 \<and> refresh_passes r3 = 0 \<and>
     rebuild_attempts r2 = 0 \<and> rebuild_attempts r3 = 0 \<and>
     rebuild_attempts r1 = (if bit (next_idle_flags s) 1 then 1 else 0) \<and>
     refresh_passes r2 = (if bit (next_idle_flags s) 2 then 1 else 0) \<and>
     (bit (next_idle_flags s) 2 \<longrightarrow>
        Update_screen_for_sprite (current_sprite I) \<in> set r2 \<and>
        (mode_gui I \<longrightarrow> Set_current_palette (current_sprite I) \<in> set r2))"
proof -
  let ?s1 = "rebuild_step I s"
  let ?s2 = "refresh_step I ?s1"
  from rebuild_step_facts(2) [of I s] obtain r1
    where r1: "trace ?s1 = trace s @ r1" "refresh_passes r1 = 0"
      "rebuild_attempts r1 = (if bit (next_idle_flags s) 1 then 1 else 0)"
    by blast
  have b2: "bit (next_idle_flags ?s1) 2 = bit (next_idle_flags s) 2"
    by (simp add: rebuild_step_facts(1))
  from refresh_step_facts(2) [of I ?s1] obtain r2
    where r2: "trace ?s2 = trace ?s1 @ r2" "rebuild_attempts r2 = 0"
      "refresh_passes r2 = (if bit (next_idle_flags s) 2 then 1 else 0)"
      "bit (next_idle_flags s) 2 \<longrightarrow>
         Update_screen_for_sprite (current_sprite I) \<in> set r2 \<and>
         (mode_gui I \<longrightarrow> Set_current_palette (current_sprite I) \<in> set r2)"
    unfolding b2 by blast
  from flush_step_facts(2) [of I ?s2] obtain r3
    where r3: "trace (flush_step I ?s2) = trace ?s2 @ r3" "refresh_passes r3 = 0"
      "rebuild_attempts r3 = 0"
    by blast
  from r1 r2 r3 show ?thesis
    by (intro exI [of _ r1] exI [of _ r2] exI [of _ r3]) (simp add: gui_feedback_steps)
qed

lemma gui_feedback_counts:
  "refresh_passes (trace (gui_feedback I s)) =
     refresh_passes (trace s) + (if bit (next_idle_flags s) 2 then 1 else 0)"
  "rebuild_attempts (trace (gui_feedback I s)) =
     rebuild_attempts (trace s) + (if bit (next_idle_flags s) 1 then 1 else 0)"
proof -
  from gui_feedback_facts [of I s] obtain r1 r2 r3
    where *: "trace (gui_feedback I s) = trace s @ r1 @ r2 @ r3"
      "refresh_passes r1 = 0" "refresh_passes r3 = 0"
      "rebuild_attempts r2 = 0" "rebuild_attempts r3 = 0"
      "rebuild_attempts r1 = (if bit (next_idle_flags s) 1 then 1 else 0)"
      "refresh_passes r2 = (if bit (next_idle_flags s) 2 then 1 else 0)"
    by blast
  have app: "refresh_passes (xs @ ys) = refresh_passes xs + refresh_passes ys"
    "rebuild_attempts (xs @ ys) = rebuild_attempts xs + rebuild_attempts ys" for xs ys
    by (simp_all add: refresh_passes_def rebuild_attempts_def)
  from * show "refresh_passes (trace (gui_feedback I s)) =
     refresh_passes (trace s) + (if bit (next_idle_flags s) 2 then 1 else 0)"
    by (simp add: app)
  from * show "rebuild_attempts (trace (gui_feedback I s)) =
     rebuild_attempts (trace s) + (if bit (next_idle_flags s) 1 then 1 else 0)"
    by (simp add: app)
qed

lemma gui_feedback_new_events:
  "bit (next_idle_flags s) 2 \<Longrightarrow>
   Update_screen_for_sprite (current_sprite I) \<in> set (new_events s (gui_feedback I s)) \<and>
   (mode_gui I \<longrightarrow> Set_current_palette (current_sprite I) \<in> set (new_events s (gui_feedback I s)))"
proof -
  assume b: "bit (next_idle_flags s) 2"
  from gui_feedback_facts [of I s] b obtain r1 r2 r3
    where *: "trace (gui_feedback I s) = trace s @ r1 @ r2 @ r3"
      "Update_screen_for_sprite (current_sprite I) \<in> set r2"
      "mode_gui I \<longrightarrow> Set_current_palette (current_sprite I) \<in> set r2"
    by blast
  then show ?thesis
    by (auto simp: new_events_def)
qed

lemma gui_feedback_flags:
  "bit (next_idle_flags (gui_feedback I s)) n \<longleftrightarrow>
     bit (next_idle_flags s) n \<and> n \<noteq> 2 \<and> \<not> (n = 1 \<and> app_realloc_recent_list I)"
  by (auto simp: gui_feedback_steps flush_step_facts(1) refresh_step_facts(1)
      rebuild_step_facts(1))

text \<open>
  Claim C5, as amended. In an iteration of \<open>gui_feedback\<close> that finds the refresh bit set,
  the bit is clear afterwards and exactly one refresh pass is made, for the current
  sprite. In an iteration that finds the recent-list bit set, \<open>app_realloc_recent_list\<close>
  is called exactly once, and the bit is clear afterwards exactly when the call reported
  success; otherwise it stays set. No other bit changes: every bit of the flags after the
  iteration is the bit before it, except that the refresh bit is clear and the recent-list
  bit is clear when the rebuild succeeded.
\<close>

theorem idle_flags_cleared_with_action:
  "(next_idle_flags s AND REFRESH_FULL_SCREEN \<noteq> 0 \<longrightarrow>
      next_idle_flags (gui_feedback I s) AND REFRESH_FULL_SCREEN = 0 \<and>
      refresh_passes (trace (gui_feedback I s)) = refresh_passes (trace s) + 1 \<and>
      Update_screen_for_sprite (current_sprite I) \<in> set (new_events s (gui_feedback I s))) \<and>
   (next_idle_flags s AND REBUILD_RECENT_LIST \<noteq> 0 \<longrightarrow>
      rebuild_attempts (trace (gui_feedback I s)) = rebuild_attempts (trace s) + 1 \<and>
      (next_idle_flags (gui_feedback I s) AND REBUILD_RECENT_LIST = 0 \<longleftrightarrow>
         app_realloc_recent_list I)) \<and>
   (\<forall>n. bit (next_idle_flags (gui_feedback I s)) n \<longleftrightarrow>
      bit (next_idle_flags s) n \<and> n \<noteq> 2 \<and> \<not> (n = 1 \<and> app_realloc_recent_list I))"
  using gui_feedback_new_events [of s I]
  by (simp add: and_REFRESH and_REBUILD gui_feedback_flags gui_feedback_counts)

text \<open>
  Claim C8. After \<open>display_switch_in_callback\<close> has set the refresh flag in any state, the
  next iteration of \<open>gui_feedback\<close> leaves the flag clear and makes exactly one refresh
  pass, which is \<open>update_screen_for_sprite\<close> for the current sprite (in GUI mode it selects
  that sprite's palette, the default palette when there is no sprite); the iteration after
  it makes no further pass.
\<close>

theorem refresh_flag_one_pass:
  "next_idle_flags (gui_feedback I (display_switch_in_callback s)) AND REFRESH_FULL_SCREEN = 0 \<and>
   refresh_passes (trace (gui_feedback I (display_switch_in_callback s))) =
     refresh_passes (trace s) + 1 \<and>
   Update_screen_for_sprite (current_sprite I)
     \<in> set (new_events s (gui_feedback I (display_switch_in_callback s))) \<and>
   (mode_gui I \<longrightarrow>
      Set_current_palette (current_sprite I)
        \<in> set (new_events s (gui_feedback I (display_switch_in_callback s)))) \<and>
   refresh_passes (trace (gui_feedback I (gui_feedback I (display_switch_in_callback s)))) =
     refresh_passes (trace s) + 1"
proof -
  let ?s1 = "display_switch_in_callback s"
  have set: "bit (next_idle_flags ?s1) 2"
    by (simp add: display_switch_in_callback_def flag_simps)
  have tr: "trace ?s1 = trace s"
    by (simp add: display_switch_in_callback_def)
  have ne: "new_events s s' = new_events ?s1 s'" for s'
    by (simp add: new_events_def tr)
  have clear: "\<not> bit (next_idle_flags (gui_feedback I ?s1)) 2"
    by (simp add: gui_feedback_flags)
  from gui_feedback_new_events [OF set, of I] set clear show ?thesis
    by (simp add: and_REFRESH gui_feedback_counts tr ne)
qed

theorem refresh_flag_one_pass_witness:
  "mode_gui sample_idle \<and>
   next_idle_flags (gui_feedback sample_idle (display_switch_in_callback gui_start)) = 0 \<and>
   trace (gui_feedback sample_idle (display_switch_in_callback gui_start)) =
     [Update_screen_for_sprite (Some 3), Set_current_palette (Some 3),
      Update_editors_with_sprite 3, Statusbar_set_text, Rec_screen_poll] \<and>
   Set_current_palette (current_sprite sample_idle)
     \<in> set (new_events gui_start (gui_feedback sample_idle (display_switch_in_callback gui_start)))"
proof -
  have m: "mode_gui sample_idle"
    by (simp add: sample_idle_def)
  have "next_idle_flags (gui_feedback sample_idle (display_switch_in_callback gui_start)) = 0 \<and>
   trace (gui_feedback sample_idle (display_switch_in_callback gui_start)) =
     [Update_screen_for_sprite (Some 3), Set_current_palette (Some 3),
      Update_editors_with_sprite 3, Statusbar_set_text, Rec_screen_poll]"
    by (simp add: gui_feedback_def display_switch_in_callback_def gui_start_def sample_idle_def
        update_screen_for_sprite_def call_def REFRESH_FULL_SCREEN_def REBUILD_RECENT_LIST_def
        Let_def)
  with refresh_flag_one_pass [of sample_idle gui_start] m show ?thesis
    by simp
qed

theorem idle_flags_cleared_with_action_witness:
  "next_idle_flags rebuild_pending AND REBUILD_RECENT_LIST \<noteq> 0 \<and>
   app_realloc_recent_list sample_idle \<and>
   next_idle_flags (gui_feedback sample_idle rebuild_pending) AND REBUILD_RECENT_LIST = 0 \<and>
   rebuild_attempts (trace (gui_feedback sample_idle rebuild_pending)) =
     rebuild_attempts (trace rebuild_pending) + 1"
proof -
  have p: "next_idle_flags rebuild_pending AND REBUILD_RECENT_LIST \<noteq> 0"
    by (simp add: rebuild_pending_def schedule_rebuild_recent_list_def gui_start_def
        REBUILD_RECENT_LIST_def)
  have a: "app_realloc_recent_list sample_idle"
    by (simp add: sample_idle_def)
  from idle_flags_cleared_with_action [of rebuild_pending sample_idle] p a show ?thesis
    by simp
qed

text \<open>
  With the recent-list menu open the rebuild is refused: the bit is found set, the call is
  made, and the bit is still set after the iteration.
\<close>

theorem rebuild_flag_kept_counterexample:
  "next_idle_flags rebuild_pending AND REBUILD_RECENT_LIST \<noteq> 0 \<and>
   next_idle_flags (gui_feedback menu_open_idle rebuild_pending) AND REBUILD_RECENT_LIST \<noteq> 0 \<and>
   trace (gui_feedback menu_open_idle rebuild_pending) =
     [App_realloc_recent_list, Rec_screen_poll]"
  by (simp add: rebuild_pending_def schedule_rebuild_recent_list_def gui_start_def
      gui_feedback_def menu_open_idle_def sample_idle_def call_def
      REFRESH_FULL_SCREEN_def REBUILD_RECENT_LIST_def Let_def)



section \<open>Properties of the widget loader\<close>

lemma find_None_iff_none: "find P xs = None \<longleftrightarrow> (\<forall>x\<in>set xs. \<not> P x)"
  by (induction xs) auto

text \<open>
  \<open>load_widget\<close> in full: a name that does not fit the array is the fault of the
  overflow, before anything is searched; so is a found path that does not fit; otherwise
  the call throws \<open>widget_file_not_found\<close> when no searched path exists, throws
  \<open>widget_not_found\<close> when the file found does not hold the widget, and returns the widget
  when it does.
\<close>

lemma load_widget_cases:
  "load_widget W filename name =
     (if \<not> name_fits filename then Inl Buffer_overflow
      else case find (file_exists W) (searched_paths W filename) of
             None \<Rightarrow> Inr (Inl (widget_file_not_found filename))
           | Some path \<Rightarrow>
               if \<not> path_fits path then Inl Buffer_overflow
               else case ji_load_widget W path name of
                      None \<Rightarrow> Inr (Inl (widget_not_found name))
                    | Some widget \<Rightarrow> Inr (Inr widget))"
  by (simp add: load_widget_def usprintf_def ustrcpy_def name_fits_def path_fits_def
      searched_paths_def split: option.splits)

lemma load_widget_file_not_found:
  assumes "name_fits filename"
  shows "load_widget W filename name = Inr (Inl (widget_file_not_found filename)) \<longleftrightarrow>
         (\<forall>p\<in>set (searched_paths W filename). \<not> file_exists W p)"
  using assms
  by (auto simp: load_widget_cases find_None_iff_none [symmetric] split: option.splits)

lemma load_widget_found:
  assumes "name_fits filename"
      and "find (file_exists W) (searched_paths W filename) = Some path"
      and "path_fits path"
  shows "load_widget W filename name =
           (case ji_load_widget W path name of
              None \<Rightarrow> Inr (Inl (widget_not_found name))
            | Some widget \<Rightarrow> Inr (Inr widget))"
  using assms by (simp add: load_widget_cases)

lemma find_widget_not_found:
  "find_widget W widget name = Inl (widget_not_found name) \<longleftrightarrow>
   jwidget_find_name W widget name = None"
  by (simp add: find_widget_def split: option.splits)

lemma find_widget_returns:
  "find_widget W widget name = Inr child \<longleftrightarrow> jwidget_find_name W widget name = Some child"
  by (simp add: find_widget_def split: option.splits)

lemma load_widget_samples:
  "load_widget no_files ''newlay.jid'' ''new_layer'' =
     Inr (Inl (widget_file_not_found ''newlay.jid'')) \<and>
   load_widget sample_widgets ''newlay.jid'' ''new_layer'' = Inr (Inr 20) \<and>
   load_widget sample_widgets ''newlay.jid'' ''tools'' = Inr (Inl (widget_not_found ''tools'')) \<and>
   find_widget sample_widgets 20 ''ok'' = Inr 21 \<and>
   find_widget sample_widgets 20 ''name'' = Inl (widget_not_found ''name'')"
  by (simp add: load_widget_def usprintf_def ustrcpy_def load_widget_dirs_def find_widget_def
      sample_widgets_def no_files_def)

text \<open>
  Claim C10 at a file name of 507 bytes that exists in no searched directory: the claim
  says that \<open>load_widget\<close> throws \<open>widget_file_not_found\<close>; the call writes 513 bytes into
  its array of 512 and is a fault.
\<close>

theorem load_widget_long_name_overflow:
  "length long_name = 507 \<and>
   list_all (\<lambda>p. \<not> file_exists no_files p) (searched_paths no_files long_name) \<and>
   load_widget no_files long_name ''new_layer'' = Inl Buffer_overflow \<and>
   load_widget no_files long_name ''new_layer'' \<noteq> Inr (Inl (widget_file_not_found long_name))"
  by (simp add: load_widget_cases name_fits_def long_name_def searched_paths_def
      load_widget_dirs_def no_files_def sample_widgets_def)


section \<open>Properties of the monitors\<close>

lemma sched_call [simp]:
  "monitors (call e s) = monitors s"
  "timers (call e s) = timers s"
  "monitor_timer (call e s) = monitor_timer s"
  by (simp_all add: call_def)

lemma sched_monitor_update [simp]:
  "monitors (monitor_update m v s) = monitors s"
  "timers (monitor_update m v s) = timers s"
  "monitor_timer (monitor_update m v s) = monitor_timer s"
  by (simp_all add: monitor_update_def)

lemma sched_delete_monitor [simp]:
  "monitors (delete_monitor m mon s) = monitors s"
  "timers (delete_monitor m mon s) = timers s"
  "monitor_timer (delete_monitor m mon s) = monitor_timer s"
  by (simp_all add: delete_monitor_def split: option.splits)

lemma keeps_timer_refl: "keeps_timer s s"
  by (simp add: keeps_timer_def)

lemma keeps_timer_trans: "keeps_timer s t \<Longrightarrow> keeps_timer t u \<Longrightarrow> keeps_timer s u"
  by (auto simp: keeps_timer_def)

lemma keeps_timer_same:
  "monitors s' = monitors s \<Longrightarrow> timers s' = timers s \<Longrightarrow> monitor_timer s' = monitor_timer s \<Longrightarrow>
   keeps_timer s s'"
  by (simp add: keeps_timer_def timer_inv_def timer_running_def timer_allocated_def)

lemma add_gui_monitor_timer:
  assumes "timer_inv s"
  shows "timer_inv (snd (add_gui_monitor p f d s))"
    and "timer_running (snd (add_gui_monitor p f d s))"
    and "timer_allocated (snd (add_gui_monitor p f d s))"
    and "monitors (snd (add_gui_monitor p f d s)) \<noteq> []"
    and "timer_allocated s \<Longrightarrow>
         monitor_timer (snd (add_gui_monitor p f d s)) = monitor_timer s"
  using assms
  by (auto simp: add_gui_monitor_def Let_def jmanager_add_timer_def jmanager_start_timer_def
      jmanager_set_timer_def timer_inv_def timer_running_def timer_allocated_def nth_append)

lemma keeps_timer_add: "keeps_timer s (snd (add_gui_monitor p f d s))"
  by (simp add: keeps_timer_def add_gui_monitor_timer)

lemma keeps_timer_stop:
  "monitors s = [] \<Longrightarrow> keeps_timer s (jmanager_stop_timer (monitor_timer s) s)"
  by (auto simp: keeps_timer_def jmanager_stop_timer_def jmanager_set_timer_def timer_inv_def
      timer_running_def timer_allocated_def)

lemma keeps_timer_stop_if_empty:
  "keeps_timer s (if monitors s = [] then jmanager_stop_timer (monitor_timer s) s else s)"
  by (simp add: keeps_timer_stop keeps_timer_refl)

lemma keeps_timer_remove:
  assumes "remove_gui_monitor m s = Inr s'"
  shows "keeps_timer s s'"
proof -
  from assms obtain mon where mon: "monitor_at s m = Some mon" and mem: "m \<in> set (monitors s)"
    by (auto simp: remove_gui_monitor_def split: if_splits option.splits)
  define s1 where "s1 = (if \<not> lock mon then delete_monitor m mon s
                          else monitor_update m (Some (mon\<lparr>deleted := True\<rparr>)) s)"
  define s2 where "s2 = s1\<lparr>monitors := remove1 m (monitors s1)\<rparr>"
  have "remove_gui_monitor m s =
          Inr (if monitors s2 = [] then jmanager_stop_timer (monitor_timer s2) s2 else s2)"
    using mon mem by (simp add: remove_gui_monitor_def Let_def s1_def s2_def)
  with assms have s': "s' = (if monitors s2 = [] then jmanager_stop_timer (monitor_timer s2) s2
                             else s2)"
    by simp
  have s1: "monitors s1 = monitors s" "timers s1 = timers s" "monitor_timer s1 = monitor_timer s"
    by (simp_all add: s1_def)
  have s2: "timers s2 = timers s" "monitor_timer s2 = monitor_timer s"
    "monitors s2 = remove1 m (monitors s)"
    by (simp_all add: s2_def s1)
  show ?thesis
  proof (cases "monitors s2 = []")
    case True
    with s2 show ?thesis
      by (auto simp: s' keeps_timer_def jmanager_stop_timer_def jmanager_set_timer_def
          timer_inv_def timer_running_def timer_allocated_def)
  next
    case False
    with s2 mem show ?thesis
      by (auto simp: s' keeps_timer_def timer_inv_def timer_running_def timer_allocated_def)
  qed
qed

lemma keeps_timer_loop:
  "monitor_loop n P it s = Some (Inr s') \<Longrightarrow> keeps_timer s s'"
  "run_calls n P cs s = Some (Inr s') \<Longrightarrow> keeps_timer s s'"
proof (induction n P it s and n P cs s arbitrary: s' and s'
       rule: monitor_loop_run_calls.induct)
  case (1 n P s)
  then show ?case by (simp add: keeps_timer_refl)
next
  case (2 P monitor s)
  then show ?case by simp
next
  case (3 n P monitor s)
  from "3.prems" have mem: "\<not> monitor \<notin> set (monitors s)"
    by (auto split: if_splits)
  from "3.prems" mem obtain mon where mon: "monitor_at s monitor = Some mon"
    by (auto simp: Let_def split: option.splits)
  let ?next = "list_next monitor (monitors s)"
  show ?case
  proof (cases "lock mon")
    case True
    with "3.prems" mem mon have "monitor_loop n P ?next s = Some (Inr s')"
      by (simp add: Let_def)
    from "3.IH"(1) [OF mem refl mon True this] show ?thesis .
  next
    case False
    define s1 where "s1 = call (Proc_enter monitor)
                            (monitor_update monitor (Some (mon\<lparr>lock := True\<rparr>)) s)"
    from "3.prems" mem mon False obtain s2 mon2
      where run: "run_calls n P (P (proc mon) (data mon) s1) s1 = Some (Inr s2)"
        and mon2: "monitor_at s2 monitor = Some mon2"
      by (auto simp: Let_def s1_def split: option.splits sum.splits)
    define s3 where "s3 = call (Proc_return monitor)
                            (monitor_update monitor (Some (mon2\<lparr>lock := False\<rparr>)) s2)"
    define s4 where "s4 = (if deleted mon2
                           then delete_monitor monitor (mon2\<lparr>lock := False\<rparr>) s3 else s3)"
    from "3.prems" mem mon False run mon2
    have rest: "monitor_loop n P ?next s4 = Some (Inr s')"
      by (simp add: Let_def s1_def [symmetric] s3_def [symmetric] s4_def)
    have k1: "keeps_timer s s1"
      by (rule keeps_timer_same) (simp_all add: s1_def)
    have k2: "keeps_timer s1 s2"
      by (rule "3.IH"(2) [OF mem refl mon False s1_def run])
    have k3: "keeps_timer s2 s4"
      by (rule keeps_timer_same) (simp_all add: s4_def s3_def)
    have k4: "keeps_timer s4 s'"
      using "3.IH"(3) [OF mem refl mon False s1_def run refl mon2 s3_def] rest
      by (simp add: s4_def)
    from k1 k2 k3 k4 show ?thesis
      by (blast intro: keeps_timer_trans)
  qed
next
  case (4 n P s)
  then show ?case by (simp add: keeps_timer_refl)
next
  case (5 n P p f d cs s)
  from "5.prems" have "run_calls n P cs (snd (add_gui_monitor p f d s)) = Some (Inr s')"
    by simp
  from "5.IH" [OF this] keeps_timer_add [of s p f d] show ?case
    by (blast intro: keeps_timer_trans)
next
  case (6 n P m cs s)
  from "6.prems" obtain b where b: "remove_gui_monitor m s = Inr b"
    and run: "run_calls n P cs b = Some (Inr s')"
    by (auto split: sum.splits)
  from "6.IH" [OF b run] keeps_timer_remove [OF b] show ?case
    by (blast intro: keeps_timer_trans)
next
  case (7 P cs s)
  then show ?case by simp
next
  case (8 n P cs s)
  from "8.prems" obtain b where b: "monitor_loop n P (list_begin (monitors s)) s = Some (Inr b)"
    and run: "run_calls (Suc n) P cs
                (if monitors b = [] then jmanager_stop_timer (monitor_timer b) b else b) =
              Some (Inr s')"
    by (auto split: option.splits sum.splits)
  from "8.IH"(1) [OF b] "8.IH"(2) [OF b refl run] keeps_timer_stop_if_empty [of b] show ?case
    by (blast intro: keeps_timer_trans)
qed

lemma keeps_timer_message:
  assumes "timer_message n P timer_id s = Some (Inr s')"
  shows "keeps_timer s s'"
proof (cases "timer_id = monitor_timer s")
  case True
  with assms obtain b where b: "monitor_loop n P (list_begin (monitors s)) s = Some (Inr b)"
    and s': "s' = (if monitors b = [] then jmanager_stop_timer (monitor_timer b) b else b)"
    by (auto simp: timer_message_def split: option.splits sum.splits)
  from keeps_timer_loop(1) [OF b] keeps_timer_stop_if_empty [of b] show ?thesis
    unfolding s' by (blast intro: keeps_timer_trans)
next
  case False
  with assms show ?thesis
    by (simp add: timer_message_def keeps_timer_refl)
qed

text \<open>
  Claim C7. Let the timer invariant hold, as it does in every state with no monitor and a
  \<open>monitor_timer\<close> that was never allocated (the initial state), and let
  \<open>add_gui_monitor\<close>, \<open>remove_gui_monitor\<close> or the timer's message complete. Then the
  invariant holds again: the timer runs when there are monitors and is stopped when there
  are none. A timer that was allocated is still allocated, under the same id; after
  \<open>add_gui_monitor\<close> the timer is allocated and running, so that registering a monitor
  after all were removed restarts the timer that was allocated first.
\<close>

theorem monitor_timer_follows_monitors:
  assumes inv: "timer_inv s"
      and step: "monitor_step n P op s = Some (Inr s')"
  shows "timer_inv s' \<and>
         (timer_running s' \<longleftrightarrow> monitors s' \<noteq> []) \<and>
         (timer_allocated s \<longrightarrow> timer_allocated s' \<and> monitor_timer s' = monitor_timer s) \<and>
         (\<forall>p f d. op = Op_add p f d \<longrightarrow> timer_allocated s' \<and> timer_running s') \<and>
         (\<forall>s0. monitors s0 = [] \<and> monitor_timer s0 < 0 \<longrightarrow>
            timer_inv s0 \<and> \<not> timer_allocated s0 \<and> \<not> timer_running s0)"
proof -
  have k: "keeps_timer s s'"
  proof (cases op)
    case (Op_add p f d)
    with step show ?thesis by (auto simp: keeps_timer_add)
  next
    case (Op_remove m)
    with step show ?thesis by (simp add: keeps_timer_remove)
  next
    case Op_timer
    with step show ?thesis by (simp add: keeps_timer_message)
  qed
  have a: "timer_allocated s' \<and> timer_running s'" if "op = Op_add p f d" for p f d
    using that step inv add_gui_monitor_timer(2,3) [of s p f d] by auto
  have i: "timer_inv s0 \<and> \<not> timer_allocated s0 \<and> \<not> timer_running s0"
    if "monitors s0 = []" "monitor_timer s0 < 0" for s0
    using that by (simp add: timer_inv_def timer_running_def timer_allocated_def)
  from k inv have "timer_inv s' \<and>
         (timer_running s' \<longleftrightarrow> monitors s' \<noteq> []) \<and>
         (timer_allocated s \<longrightarrow> timer_allocated s' \<and> monitor_timer s' = monitor_timer s)"
    by (auto simp: keeps_timer_def timer_inv_def)
  with a i show ?thesis
    by blast
qed

lemmas monitor_defs =
  add_gui_monitor_def remove_gui_monitor_def timer_message_def Monitor_new_def monitor_at_def
  monitor_update_def delete_monitor_def jmanager_add_timer_def jmanager_start_timer_def
  jmanager_stop_timer_def jmanager_set_timer_def list_begin_def call_def gui_start_def
  sample_procs_def Let_def

lemma one_monitor_eq:
  "one_monitor =
     gui_start\<lparr>monitors := [0],
       monitor_store := [Some \<lparr>proc = 1, free = Some 8, data = 0, lock = False, deleted = False\<rparr>],
       monitor_timer := 0, timers := [True]\<rparr>"
  by (simp add: one_monitor_def monitor_defs)

lemma two_monitors_eq:
  "two_monitors =
     gui_start\<lparr>monitors := [0, 1],
       monitor_store :=
         [Some \<lparr>proc = 0, free = None, data = 0, lock = False, deleted = False\<rparr>,
          Some \<lparr>proc = 1, free = Some 8, data = 0, lock = False, deleted = False\<rparr>],
       monitor_timer := 0, timers := [True]\<rparr>"
  by (simp add: two_monitors_def monitor_defs)

lemma self_removing_eq:
  "self_removing =
     gui_start\<lparr>monitors := [0],
       monitor_store := [Some \<lparr>proc = 2, free = Some 9, data = 0, lock = False, deleted = False\<rparr>],
       monitor_timer := 0, timers := [True]\<rparr>"
  by (simp add: self_removing_def monitor_defs)

text \<open>
  Claim C2, the failing input. Two monitors are registered and the poll function of the
  first removes the second. \<open>remove_gui_monitor\<close> deletes the second monitor and erases its
  list element while the loop of the timer's message holds \<open>next\<close> on that element; when
  the poll function returns, the loop goes on from the erased element.
\<close>

theorem remove_next_monitor_dangling:
  "monitors two_monitors = [0, 1] \<and>
   sample_procs 0 0 = (\<lambda>s. [Call_remove_gui_monitor 1]) \<and>
   manager_msg_proc 3 sample_env sample_idle sample_procs
     (JM_TIMER (monitor_timer two_monitors)) two_monitors =
     Some (Inl Dangling_iterator)"
  by (simp add: two_monitors_eq monitor_defs manager_msg_proc_def fun_eq_iff eval_nat_numeral)

text \<open>
  A monitor that removes itself from its poll function: the teardown runs once, after the
  poll function has returned, and the timer is stopped.
\<close>

lemma self_removal_defers_teardown:
  "timer_message 3 sample_procs (monitor_timer self_removing) self_removing =
     Some (Inr (gui_start\<lparr>monitors := [], monitor_store := [None], monitor_timer := 0,
                  timers := [False],
                  trace := [Proc_enter 0, Proc_return 0, Free_call 0 9 0]\<rparr>))"
  by (simp add: self_removing_eq monitor_defs eval_nat_numeral)

theorem monitor_timer_follows_monitors_witness:
  "timer_inv gui_start \<and> \<not> timer_allocated gui_start \<and>
   monitor_step 3 sample_procs (Op_add 1 (Some 8) 0) gui_start = Some (Inr one_monitor) \<and>
   timer_inv one_monitor \<and> timer_running one_monitor \<and> monitor_timer one_monitor = 0 \<and>
   monitor_step 3 sample_procs (Op_remove 0) one_monitor =
     Some (Inr (gui_start\<lparr>monitors := [], monitor_store := [None], monitor_timer := 0,
                  timers := [False], trace := [Free_call 0 8 0]\<rparr>)) \<and>
   timer_inv (gui_start\<lparr>monitors := [], monitor_store := [None], monitor_timer := 0,
                timers := [False], trace := [Free_call 0 8 0]\<rparr>) \<and>
   \<not> timer_running (gui_start\<lparr>monitors := [], monitor_store := [None], monitor_timer := 0,
                timers := [False], trace := [Free_call 0 8 0]\<rparr>) \<and>
   timer_allocated (gui_start\<lparr>monitors := [], monitor_store := [None], monitor_timer := 0,
                timers := [False], trace := [Free_call 0 8 0]\<rparr>) \<and>
   timer_running (snd (add_gui_monitor 1 None 0
     (gui_start\<lparr>monitors := [], monitor_store := [None], monitor_timer := 0,
                timers := [False], trace := [Free_call 0 8 0]\<rparr>))) \<and>
   monitor_timer (snd (add_gui_monitor 1 None 0
     (gui_start\<lparr>monitors := [], monitor_store := [None], monitor_timer := 0,
                timers := [False], trace := [Free_call 0 8 0]\<rparr>))) = 0 \<and>
   timer_inv self_removing \<and>
   monitor_step 3 sample_procs Op_timer self_removing =
     Some (Inr (gui_start\<lparr>monitors := [], monitor_store := [None], monitor_timer := 0,
                  timers := [False],
                  trace := [Proc_enter 0, Proc_return 0, Free_call 0 9 0]\<rparr>)) \<and>
   \<not> timer_running (gui_start\<lparr>monitors := [], monitor_store := [None], monitor_timer := 0,
                  timers := [False],
                  trace := [Proc_enter 0, Proc_return 0, Free_call 0 9 0]\<rparr>)"
proof -
  let ?s2 = "gui_start\<lparr>monitors := [], monitor_store := [None], monitor_timer := 0,
                timers := [False], trace := [Free_call 0 8 0]\<rparr>"
  have i0: "timer_inv gui_start" and a0: "\<not> timer_allocated gui_start"
    by (simp_all add: timer_inv_def timer_running_def timer_allocated_def gui_start_def)
  have st1: "monitor_step 3 sample_procs (Op_add 1 (Some 8) 0) gui_start = Some (Inr one_monitor)"
    by (simp add: one_monitor_def)
  have st2: "monitor_step 3 sample_procs (Op_remove 0) one_monitor = Some (Inr ?s2)"
    by (simp add: one_monitor_eq monitor_defs)
  have id1: "monitor_timer one_monitor = 0"
    by (simp add: one_monitor_eq gui_start_def)
  have e2: "monitors ?s2 = []"
    by simp
  from monitor_timer_follows_monitors [OF i0 st1]
  have i1: "timer_inv one_monitor" and r1: "timer_running one_monitor"
    and a1: "timer_allocated one_monitor"
    by blast+
  from monitor_timer_follows_monitors [OF i1 st2] a1 e2
  have i2: "timer_inv ?s2" and r2: "\<not> timer_running ?s2" and a2: "timer_allocated ?s2"
    by blast+
  have st3: "monitor_step 3 sample_procs (Op_add 1 None 0) ?s2 =
               Some (Inr (snd (add_gui_monitor 1 None 0 ?s2)))"
    by simp
  from monitor_timer_follows_monitors [OF i2 st3] a2
  have r3: "timer_running (snd (add_gui_monitor 1 None 0 ?s2))"
    and id3: "monitor_timer (snd (add_gui_monitor 1 None 0 ?s2)) = monitor_timer ?s2"
    by blast+
  from id3 have id3': "monitor_timer (snd (add_gui_monitor 1 None 0 ?s2)) = 0"
    by simp
  let ?s4 = "gui_start\<lparr>monitors := [], monitor_store := [None], monitor_timer := 0,
                  timers := [False],
                  trace := [Proc_enter 0, Proc_return 0, Free_call 0 9 0]\<rparr>"
  have st4: "monitor_step 3 sample_procs Op_timer self_removing = Some (Inr ?s4)"
    using self_removal_defers_teardown by simp
  have st0: "monitor_step 3 sample_procs (Op_add 2 (Some 9) 0) gui_start =
               Some (Inr self_removing)"
    by (simp add: self_removing_def)
  from monitor_timer_follows_monitors [OF i0 st0] have i4: "timer_inv self_removing"
    by blast
  have e4: "monitors ?s4 = []"
    by simp
  from monitor_timer_follows_monitors [OF i4 st4] e4 have r4: "\<not> timer_running ?s4"
    by blast
  from i0 a0 st1 i1 r1 id1 st2 i2 r2 a2 r3 id3' i4 st4 r4 show ?thesis
    by simp
qed


end
